theory Spec2Isabelle
  imports Complex_Main "HOL-Library.Multiset" "HOL-Library.Sublist"
begin

section \<open>Text primitives\<close>

text \<open>
  Python strings are modelled as \<open>string\<close> (lists of 8-bit characters); the model
  covers ASCII text, where one \<open>char\<close> is one code point.  The character classes below
  are the ASCII parts of the classes Python's \<open>str\<close> methods and the \<open>re\<close> module use
  for \<open>str\<close> patterns: \<open>\s\<close> and \<open>str.split\<close>/\<open>str.strip\<close> share one whitespace test,
  \<open>\w\<close> is letters, digits and the underscore.  Polarity values are Python floats; they
  are modelled as exact reals, so floating-point rounding is outside the model.
\<close>

definition is_space :: "char \<Rightarrow> bool" where
  "is_space c = (c \<in> set [CHR 0x09, CHR 0x0A, CHR 0x0B, CHR 0x0C, CHR 0x0D,
                             CHR 0x1C, CHR 0x1D, CHR 0x1E, CHR 0x1F, CHR 0x20])"

definition is_lower_az :: "char \<Rightarrow> bool" where
  "is_lower_az c = (c \<in> set ''abcdefghijklmnopqrstuvwxyz'')"

definition is_upper_az :: "char \<Rightarrow> bool" where
  "is_upper_az c = (c \<in> set ''ABCDEFGHIJKLMNOPQRSTUVWXYZ'')"

definition is_digit :: "char \<Rightarrow> bool" where
  "is_digit c = (c \<in> set ''0123456789'')"

definition is_word :: "char \<Rightarrow> bool" where
  "is_word c = (is_lower_az c \<or> is_upper_az c \<or> is_digit c \<or> c = CHR ''_'')"

definition lower_char :: "char \<Rightarrow> char" where
  "lower_char c =
     (case map_of (zip ''ABCDEFGHIJKLMNOPQRSTUVWXYZ'' ''abcdefghijklmnopqrstuvwxyz'') c of
        Some d \<Rightarrow> d
      | None \<Rightarrow> c)"

definition lower :: "string \<Rightarrow> string" where
  "lower s = map lower_char s"

text \<open>\<open>not text.strip()\<close>: the string is empty once the whitespace at both ends is removed.\<close>

definition strip :: "string \<Rightarrow> string" where
  "strip s = rev (dropWhile is_space (rev (dropWhile is_space s)))"

section \<open>analyzer.py\<close>

subsection \<open>Aspect keywords\<close>

datatype aspect = academics | placements | infrastructure | campus_life | fees

text \<open>The keys of \<open>ASPECT_KEYWORDS\<close> in the order a loop over the dictionary visits them.\<close>

definition aspects :: "aspect list" where
  "aspects = [academics, placements, infrastructure, campus_life, fees]"

fun ASPECT_KEYWORDS :: "aspect \<Rightarrow> string list" where
  "ASPECT_KEYWORDS academics =
     [''academic'', ''academics'', ''course'', ''courses'', ''professor'', ''professors'',
      ''prof'', ''faculty'', ''teacher'', ''teaching'', ''curriculum'', ''syllabus'', ''study'',
      ''studies'', ''research'', ''exam'', ''exams'', ''grade'', ''grades'', ''gpa'', ''lecture'',
      ''lectures'', ''learning'', ''knowledge'', ''department'', ''assignment'', ''assignments'',
      ''rigor'', ''challenging'', ''difficult'', ''education'', ''degree'']"
| "ASPECT_KEYWORDS placements =
     [''placement'', ''placements'', ''job'', ''jobs'', ''career'', ''careers'', ''intern'',
      ''internship'', ''internships'', ''recruit'', ''recruiter'', ''recruiters'', ''recruitment'',
      ''hiring'', ''offer'', ''offers'', ''company'', ''companies'', ''salary'', ''package'',
      ''ctc'', ''employ'', ''employment'', ''opportunity'', ''opportunities'', ''resume'', ''cv'',
      ''alumni network'']"
| "ASPECT_KEYWORDS infrastructure =
     [''infrastructure'', ''infra'', ''building'', ''buildings'', ''hostel'', ''hostels'',
      ''mess'', ''food'', ''canteen'', ''lab'', ''labs'', ''library'', ''wifi'', ''internet'',
      ''classroom'', ''classrooms'', ''facility'', ''facilities'', ''campus'', ''area'', ''clean'',
      ''maintenance'', ''sports'', ''gym'', ''equipment'', ''room'', ''rooms'', ''water'',
      ''power'', ''transport'']"
| "ASPECT_KEYWORDS campus_life =
     [''life'', ''campus life'', ''culture'', ''fest'', ''fests'', ''event'', ''events'', ''club'',
      ''clubs'', ''activity'', ''activities'', ''social'', ''community'', ''student'',
      ''students'', ''peer'', ''peers'', ''friend'', ''friends'', ''people'', ''atmosphere'',
      ''vibe'', ''environment'', ''fun'', ''enjoy'', ''experience'', ''hostel life'', ''party'',
      ''parties'', ''ragging'', ''senior'', ''junior'', ''diversity'', ''safety'', ''security'',
      ''interaction'', ''extra curricular'']"
| "ASPECT_KEYWORDS fees =
     [''fee'', ''fees'', ''cost'', ''expensive'', ''cheap'', ''affordable'', ''price'',
      ''tuition'', ''scholarship'', ''loan'', ''value'', ''money'', ''worth'', ''finance'',
      ''financial'', ''payment'']"

subsection \<open>Whole-word search\<close>

text \<open>
  \<open>re.search(r'\b' + re.escape(keyword) + r'\b', sentence_lower)\<close>.  The escaped keyword
  matches itself literally.  \<open>\b\<close> holds at a position when exactly one of the characters
  on its two sides is a word character; beyond either end of the string there is no
  character.  \<open>word_at p kw t\<close> is a match that starts where the rest of the text is \<open>t\<close>
  and the character before it is \<open>p\<close>; \<open>search_from\<close> tries every start from left to
  right, as the regex engine does.
\<close>

fun is_word_opt :: "char option \<Rightarrow> bool" where
  "is_word_opt None = False"
| "is_word_opt (Some c) = is_word c"

definition boundary :: "char option \<Rightarrow> char option \<Rightarrow> bool" where
  "boundary p n = (is_word_opt p \<noteq> is_word_opt n)"

fun first_opt :: "string \<Rightarrow> char option" where
  "first_opt [] = None"
| "first_opt (c # cs) = Some c"

fun last_opt :: "char option \<Rightarrow> string \<Rightarrow> char option" where
  "last_opt p [] = p"
| "last_opt p (c # cs) = last_opt (Some c) cs"

definition word_at :: "char option \<Rightarrow> string \<Rightarrow> string \<Rightarrow> bool" where
  "word_at p kw t =
     (boundary p (first_opt t) \<and> take (length kw) t = kw \<and>
      boundary (last_opt p kw) (first_opt (drop (length kw) t)))"

fun search_from :: "char option \<Rightarrow> string \<Rightarrow> string \<Rightarrow> bool" where
  "search_from p kw [] = word_at p kw []"
| "search_from p kw (c # cs) = (word_at p kw (c # cs) \<or> search_from (Some c) kw cs)"

definition re_search_word :: "string \<Rightarrow> string \<Rightarrow> bool" where
  "re_search_word kw s = search_from None kw s"

text \<open>The condition of line 105: some keyword of the aspect is found in the lowercased sentence.\<close>

definition aspect_matches :: "aspect \<Rightarrow> string \<Rightarrow> bool" where
  "aspect_matches a sentence_lower =
     list_ex (\<lambda>keyword. re_search_word keyword sentence_lower) (ASPECT_KEYWORDS a)"

subsection \<open>The sentiment oracle adapter\<close>

text \<open>
  The values a caller may pass as \<open>text\<close>: a string, or something that is not a string.
\<close>

datatype pyobj = PyStr string | PyNone | PyNum real

text \<open>
  The VADER analyzer is an external library.  \<open>polarity_scores\<close> is taken as a parameter:
  for a text it returns a dictionary of scores or raises an exception (an \<open>Exception\<close>
  with its message).  The module-level \<open>analyzer\<close> is \<open>None\<close> when the lexicon could not
  be loaded.  The sentence segmenter \<open>sent_tokenize\<close> is a parameter of the same kind.
\<close>

type_synonym exn = string
type_synonym analyzer = "string \<Rightarrow> exn + (string \<rightharpoonup> real)"
type_synonym tokenizer = "string \<Rightarrow> exn + string list"

text \<open>What the adapter does besides returning: calls of the oracle, lines printed.\<close>

datatype event = OracleCall string | Printed string

definition vader_error_line :: "string \<Rightarrow> exn \<Rightarrow> string" where
  "vader_error_line text e =
     ''Error in VADER analysis for text snippet: '' @ [CHR 0x27] @ take 50 text @ ''...'' @
     [CHR 0x27] @ '': '' @ e"

text \<open>The body of the \<open>try\<close> of lines 71-72: the oracle may raise, and so may the lookup.\<close>

definition polarity_compound :: "analyzer \<Rightarrow> string \<Rightarrow> exn + real" where
  "polarity_compound orc text =
     (case orc text of
        Inl e \<Rightarrow> Inl e
      | Inr scores \<Rightarrow>
          (case scores ''compound'' of
             None \<Rightarrow> Inl ([CHR 0x27] @ ''compound'' @ [CHR 0x27])
           | Some v \<Rightarrow> Inr v))"

definition get_vader_sentiment :: "analyzer option \<Rightarrow> pyobj \<Rightarrow> real \<times> event list" where
  "get_vader_sentiment an text =
     (case an of
        None \<Rightarrow> (0, [])
      | Some orc \<Rightarrow>
          (case text of
             PyStr s \<Rightarrow>
               if strip s = [] then (0, [])
               else (case polarity_compound orc s of
                       Inr v \<Rightarrow> (v, [OracleCall s])
                     | Inl e \<Rightarrow> (0, [OracleCall s, Printed (vader_error_line s e)]))
           | _ \<Rightarrow> (0, [])))"

subsection \<open>Aspect sentiment of a document\<close>

text \<open>
  The accumulators \<open>aspect_sentiments\<close> map every aspect to the list of scores appended so
  far.  \<open>tag_aspects\<close> is the inner loop over the aspects (lines 103-106) for one sentence,
  \<open>tag_sentences\<close> the outer loop over the sentences (lines 97-106).
\<close>

type_synonym accumulators = "aspect \<Rightarrow> real list"

fun tag_aspects :: "string \<Rightarrow> real \<Rightarrow> aspect list \<Rightarrow> accumulators \<Rightarrow> accumulators" where
  "tag_aspects sentence_lower sentence_score [] acc = acc"
| "tag_aspects sentence_lower sentence_score (a # as) acc =
     tag_aspects sentence_lower sentence_score as
       (if aspect_matches a sentence_lower then acc(a := acc a @ [sentence_score]) else acc)"

definition sentence_score :: "analyzer option \<Rightarrow> string \<Rightarrow> real" where
  "sentence_score an sentence = fst (get_vader_sentiment an (PyStr sentence))"

fun tag_sentences :: "analyzer option \<Rightarrow> string list \<Rightarrow> accumulators \<Rightarrow> accumulators" where
  "tag_sentences an [] acc = acc"
| "tag_sentences an (sentence # rest) acc =
     tag_sentences an rest
       (tag_aspects (lower sentence) (sentence_score an sentence) aspects acc)"

text \<open>
  Lines 110-115.  The handler of \<open>ZeroDivisionError\<close> is kept as the branch of an empty
  list under the test that the list is not empty.
\<close>

definition final_score :: "real list \<Rightarrow> real option" where
  "final_score scores =
     (if scores \<noteq> [] then
        (if length scores = 0 then Some 0
         else Some (sum_list scores / real (length scores)))
      else None)"

definition analyze_aspect_sentiment ::
  "analyzer option \<Rightarrow> tokenizer \<Rightarrow> pyobj \<Rightarrow> aspect \<Rightarrow> real option" where
  "analyze_aspect_sentiment an sent_tokenize text =
     (case an of
        None \<Rightarrow> (\<lambda>a. None)
      | Some orc \<Rightarrow>
          (case text of
             PyStr s \<Rightarrow>
               if strip s = [] then (\<lambda>a. None)
               else (case sent_tokenize s of
                       Inl e \<Rightarrow> (\<lambda>a. None)
                     | Inr sentences \<Rightarrow>
                         (\<lambda>a. final_score (tag_sentences an sentences (\<lambda>a. []) a)))
           | _ \<Rightarrow> (\<lambda>a. None)))"

subsection \<open>Reference notions for the analyzer\<close>

text \<open>
  The claims speak of a keyword that occurs as a whole word, of the sentences of a
  document and of the sentences that match an aspect.  These three definitions state
  those notions directly; the theorems below compare the code with them.
  A keyword occurs as a whole word when the text splits into a part before it and a part
  after it, and neither the character just before nor the character just after is a word
  character.
\<close>

definition whole_word_in :: "string \<Rightarrow> string \<Rightarrow> bool" where
  "whole_word_in kw s =
     (\<exists>pre post. s = pre @ kw @ post \<and>
        \<not> is_word_opt (last_opt None pre) \<and> \<not> is_word_opt (first_opt post))"

text \<open>
  The sentences of a document: what the segmenter returns for a string with a
  non-whitespace character; nothing for any other value, and nothing when the segmenter
  fails.
\<close>

definition document_sentences :: "tokenizer \<Rightarrow> pyobj \<Rightarrow> string list" where
  "document_sentences sent_tokenize text =
     (case text of
        PyStr s \<Rightarrow>
          if strip s = [] then []
          else (case sent_tokenize s of Inl e \<Rightarrow> [] | Inr sentences \<Rightarrow> sentences)
      | _ \<Rightarrow> [])"

definition matching_sentences :: "aspect \<Rightarrow> string list \<Rightarrow> string list" where
  "matching_sentences a sentences = filter (\<lambda>sen. aspect_matches a (lower sen)) sentences"

text \<open>An input for which the adapter must not consult the oracle.\<close>

definition neutral_input :: "pyobj \<Rightarrow> bool" where
  "neutral_input text = (case text of PyStr s \<Rightarrow> list_all is_space s | _ \<Rightarrow> True)"

text \<open>Keywords begin and end with a lowercase letter.\<close>

definition kw_ok :: "string \<Rightarrow> bool" where
  "kw_ok kw =
     (case kw of [] \<Rightarrow> False | c # cs \<Rightarrow> is_lower_az c \<and> is_lower_az (last (c # cs)))"

text \<open>Sample oracles, a sample segmenter and a sample sentence, used in the examples.\<close>

definition neutral_oracle :: analyzer where
  "neutral_oracle text =
     Inr [''neg'' \<mapsto> 0, ''neu'' \<mapsto> 1, ''pos'' \<mapsto> 0, ''compound'' \<mapsto> 0]"

definition failing_oracle :: analyzer where
  "failing_oracle text = Inl ''lexicon lookup failed''"

definition whole_text :: tokenizer where
  "whole_text text = Inr [text]"

definition great_bad :: string where
  "great_bad = ''The academics are great but the hostel food is bad''"

subsection \<open>Properties of the analyzer\<close>

lemmas char_class_defs = is_space_def is_lower_az_def is_upper_az_def is_digit_def is_word_def
  lower_char_def lower_def

lemmas match_defs = aspect_matches_def re_search_word_def word_at_def boundary_def

lemma strip_empty_iff: "strip s = [] \<longleftrightarrow> list_all is_space s"
proof (cases "dropWhile is_space s")
  case Nil
  then have "list_all is_space s" by (simp add: list_all_iff dropWhile_eq_Nil_conv)
  moreover have "strip s = []" unfolding strip_def Nil by simp
  ultimately show ?thesis by simp
next
  case (Cons c cs)
  then have "\<not> is_space c" using hd_dropWhile[of is_space s] by auto
  moreover have "c \<in> set s" using Cons set_dropWhileD[of c is_space s] by simp
  ultimately have "\<not> list_all is_space s" by (auto simp: list_all_iff)
  moreover have "strip s \<noteq> []"
  proof
    assume "strip s = []"
    then have "\<forall>x\<in>set (dropWhile is_space s). is_space x"
      by (simp add: strip_def dropWhile_eq_Nil_conv)
    then show False using Cons \<open>\<not> is_space c\<close> by simp
  qed
  ultimately show ?thesis by simp
qed

lemma kw_edges_all: "list_all kw_ok (ASPECT_KEYWORDS a)"
  by (cases a; simp add: kw_ok_def is_lower_az_def)

lemma is_lower_word: "is_lower_az c \<Longrightarrow> is_word c"
  by (simp add: is_word_def)

lemma take_eq_iff_append: "take (length kw) t = kw \<longleftrightarrow> (\<exists>post. t = kw @ post)"
  by (metis append_eq_conv_conj append_take_drop_id)

lemma last_opt_nonempty: "xs \<noteq> [] \<Longrightarrow> last_opt p xs = Some (last xs)"
  by (induction xs arbitrary: p) auto

lemma word_at_iff:
  "word_at p kw t \<longleftrightarrow>
     (\<exists>post. t = kw @ post \<and> boundary p (first_opt (kw @ post)) \<and>
        boundary (last_opt p kw) (first_opt post))"
  unfolding word_at_def take_eq_iff_append by auto

text \<open>The left-to-right scan finds a match exactly when the text splits around one.\<close>

lemma search_from_iff:
  "search_from p kw t \<longleftrightarrow>
     (\<exists>pre post. t = pre @ kw @ post \<and>
        boundary (last_opt p pre) (first_opt (kw @ post)) \<and>
        boundary (last_opt p (pre @ kw)) (first_opt post))"
proof (induction t arbitrary: p)
  case Nil
  show ?case by (auto simp: word_at_iff)
next
  case (Cons c cs)
  show ?case (is "?L = ?R")
  proof
    assume ?L
    then consider "word_at p kw (c # cs)" | "search_from (Some c) kw cs" by auto
    then show ?R
    proof cases
      case 1
      then obtain post where "c # cs = kw @ post" "boundary p (first_opt (kw @ post))"
        "boundary (last_opt p kw) (first_opt post)" by (auto simp: word_at_iff)
      then show ?thesis by (intro exI[of _ "[]"] exI[of _ post]) simp
    next
      case 2
      then obtain pre post where "cs = pre @ kw @ post"
        "boundary (last_opt (Some c) pre) (first_opt (kw @ post))"
        "boundary (last_opt (Some c) (pre @ kw)) (first_opt post)"
        using Cons.IH by blast
      then show ?thesis by (intro exI[of _ "c # pre"] exI[of _ post]) simp
    qed
  next
    assume ?R
    then obtain pre post where *: "c # cs = pre @ kw @ post"
        "boundary (last_opt p pre) (first_opt (kw @ post))"
        "boundary (last_opt p (pre @ kw)) (first_opt post)" by blast
    show ?L
    proof (cases pre)
      case Nil
      with * have "word_at p kw (c # cs)" by (auto simp: word_at_iff)
      then show ?thesis by simp
    next
      case (Cons d pre')
      with * have "cs = pre' @ kw @ post" "d = c" by auto
      with * Cons have "search_from (Some c) kw cs"
        using Cons.IH[of "Some c"] by auto
      then show ?thesis by simp
    qed
  qed
qed

lemma re_search_word_iff:
  assumes "kw_ok kw"
  shows "re_search_word kw s \<longleftrightarrow> whole_word_in kw s"
proof -
  from assms obtain c cs where kw: "kw = c # cs" and c: "is_word c" and l: "is_word (last kw)"
    by (auto simp: kw_ok_def is_lower_word split: list.splits)
  have a: "first_opt (kw @ post) = Some c" for post by (simp add: kw)
  have b: "last_opt p (pre @ kw) = Some (last kw)" for p pre
    using last_opt_nonempty[of "pre @ kw" p] by (simp add: kw)
  show ?thesis
    unfolding re_search_word_def search_from_iff whole_word_in_def a b boundary_def
    using c l by simp
qed

lemma tag_aspects_iff:
  "distinct as \<Longrightarrow>
   tag_aspects sl sc as acc a =
     (if a \<in> set as \<and> aspect_matches a sl then acc a @ [sc] else acc a)"
  by (induction as arbitrary: acc) auto

lemma aspects_all: "a \<in> set aspects" "distinct aspects"
  by (cases a; simp add: aspects_def)+

lemma tag_sentences_eq:
  "tag_sentences an ss acc a =
     acc a @ map (sentence_score an) (filter (\<lambda>s. aspect_matches a (lower s)) ss)"
  by (induction ss arbitrary: acc) (auto simp: tag_aspects_iff aspects_all)

text \<open>
  C1 (as amended).  When the analyzer was initialised, the score of an aspect is absent
  exactly when no sentence of the document matches the aspect, and otherwise it is the sum
  of the polarities of the matching sentences divided by their number.  When the analyzer
  was not initialised, every aspect score is absent.
\<close>

theorem aspect_score_is_mean:
  "analyze_aspect_sentiment (Some orc) tok text a =
     (let matching = matching_sentences a (document_sentences tok text) in
      if matching = [] then None
      else Some (sum_list (map (sentence_score (Some orc)) matching) / real (length matching)))
   \<and> analyze_aspect_sentiment None tok text a = None"
  by (auto simp: analyze_aspect_sentiment_def document_sentences_def matching_sentences_def
      final_score_def tag_sentences_eq Let_def split: pyobj.splits sum.splits)

text \<open>
  A document whose only sentence mentions a fees keyword and has polarity 0.0: the fees
  score is present and is 0.0, the academics score is absent.
\<close>

theorem aspect_score_is_mean_witness:
  "analyze_aspect_sentiment (Some neutral_oracle) whole_text (PyStr ''cost is high'') fees = Some 0
   \<and> analyze_aspect_sentiment (Some neutral_oracle) whole_text (PyStr ''cost is high'') academics
       = None"
proof -
  have s: "document_sentences whole_text (PyStr ''cost is high'') = [''cost is high'']"
    by (simp add: document_sentences_def whole_text_def strip_def is_space_def)
  have f: "matching_sentences fees [''cost is high''] = [''cost is high'']"
    by (simp add: matching_sentences_def match_defs char_class_defs)
  have a: "matching_sentences academics [''cost is high''] = []"
    by (simp add: matching_sentences_def match_defs char_class_defs)
  have v: "sentence_score (Some neutral_oracle) ''cost is high'' = 0"
    by (simp add: sentence_score_def get_vader_sentiment_def polarity_compound_def
        neutral_oracle_def strip_def is_space_def)
  show ?thesis
    using aspect_score_is_mean[of neutral_oracle whole_text "PyStr ''cost is high''" fees]
      aspect_score_is_mean[of neutral_oracle whole_text "PyStr ''cost is high''" academics]
    by (simp add: s f a v)
qed

text \<open>
  C1 as stated fails when the analyzer was not initialised: the one sentence of the
  document matches a fees keyword, and the fees score is absent all the same.
\<close>

theorem aspect_score_uninitialised_counterexample:
  "\<not> (analyze_aspect_sentiment None whole_text (PyStr ''cost is high'') fees \<noteq> None \<longleftrightarrow>
       list_ex (\<lambda>sen. aspect_matches fees (lower sen)) [''cost is high''])"
  by (simp add: analyze_aspect_sentiment_def match_defs char_class_defs)

text \<open>
  C2.  For one sentence, the loop over the aspects appends the sentence's single polarity
  to the accumulator of every aspect the sentence matches and leaves the others as they
  were; over all sentences, the accumulator of an aspect receives the polarities of the
  sentences that match it, in order, whatever other aspects they match.
\<close>

theorem sentence_feeds_every_matched_aspect:
  "tag_aspects (lower sen) (sentence_score an sen) aspects acc =
     (\<lambda>a. if aspect_matches a (lower sen) then acc a @ [sentence_score an sen] else acc a)
   \<and> tag_sentences an sentences acc a =
       acc a @ map (sentence_score an) (matching_sentences a sentences)"
  by (auto simp: tag_aspects_iff aspects_all tag_sentences_eq matching_sentences_def)

theorem sentence_feeds_every_matched_aspect_witness:
  "aspect_matches academics (lower great_bad) \<and> aspect_matches infrastructure (lower great_bad)
   \<and> tag_aspects (lower great_bad) (sentence_score (Some neutral_oracle) great_bad) aspects (\<lambda>a. []) academics
       = [sentence_score (Some neutral_oracle) great_bad]
   \<and> tag_aspects (lower great_bad) (sentence_score (Some neutral_oracle) great_bad) aspects (\<lambda>a. []) infrastructure
       = [sentence_score (Some neutral_oracle) great_bad]
   \<and> tag_aspects (lower great_bad) (sentence_score (Some neutral_oracle) great_bad) aspects (\<lambda>a. []) fees = []"
proof -
  have 1: "aspect_matches academics (lower great_bad)"
    by (simp add: great_bad_def match_defs char_class_defs)
  have 2: "aspect_matches infrastructure (lower great_bad)"
    by (simp add: great_bad_def match_defs char_class_defs)
  have 3: "\<not> aspect_matches fees (lower great_bad)"
    by (simp add: great_bad_def match_defs char_class_defs)
  show ?thesis
    using sentence_feeds_every_matched_aspect[of great_bad "Some neutral_oracle" "\<lambda>a. []" "[]" academics] 1 2 3
    by simp
qed

text \<open>
  C3.  A sentence is tagged with an aspect exactly when some keyword of the aspect occurs
  in the lowercased sentence as a whole word: with no word character directly before it
  and none directly after it.
\<close>

theorem tag_whole_word:
  "aspect_matches a (lower sentence) \<longleftrightarrow>
     (\<exists>kw. kw \<in> set (ASPECT_KEYWORDS a) \<and> whole_word_in kw (lower sentence))"
proof -
  have "kw \<in> set (ASPECT_KEYWORDS a) \<Longrightarrow> kw_ok kw" for kw
    using kw_edges_all[of a] by (simp add: list_all_iff)
  then show ?thesis
    unfolding aspect_matches_def list_ex_iff using re_search_word_iff by blast
qed

text \<open>"Cost is high" is tagged with fees; "The costume" is not, and "cost" is no whole word of it.\<close>

theorem tag_whole_word_witness:
  "aspect_matches fees (lower ''Cost is high'') \<and> \<not> aspect_matches fees (lower ''The costume'')
   \<and> \<not> whole_word_in ''cost'' (lower ''The costume'')"
proof -
  have 1: "whole_word_in ''cost'' (lower ''Cost is high'')"
    unfolding whole_word_in_def
    by (intro exI[of _ "[]"] exI[of _ "'' is high''"]) (simp add: char_class_defs)
  have 2: "\<not> aspect_matches fees (lower ''The costume'')"
    by (simp add: match_defs char_class_defs)
  have "aspect_matches fees (lower ''Cost is high'')"
    using tag_whole_word[of fees "''Cost is high''"] 1 by auto
  moreover have "\<not> whole_word_in ''cost'' (lower ''The costume'')"
    using tag_whole_word[of fees "''The costume''"] 2 by auto
  ultimately show ?thesis using 2 by simp
qed

text \<open>
  C4.  For a value that is not a string and for a string that is empty or all whitespace
  the adapter returns 0.0 and records no call of the oracle.  When the oracle raises, or
  its result has no compound score, the adapter returns 0.0.  Otherwise it returns the
  compound score after one call.  With no analyzer it returns 0.0 without a call.  In
  every case the result is a number: no failure reaches the caller.
\<close>

theorem adapter_degrades_to_neutral:
  "(neutral_input text \<longrightarrow> get_vader_sentiment an text = (0, []))
   \<and> (orc s = Inl e \<longrightarrow> fst (get_vader_sentiment (Some orc) (PyStr s)) = 0)
   \<and> (polarity_compound orc s = Inl e \<longrightarrow> fst (get_vader_sentiment (Some orc) (PyStr s)) = 0)
   \<and> (polarity_compound orc s = Inr v \<longrightarrow> \<not> list_all is_space s \<longrightarrow>
        get_vader_sentiment (Some orc) (PyStr s) = (v, [OracleCall s]))
   \<and> get_vader_sentiment None text = (0, [])"
  by (auto simp: neutral_input_def get_vader_sentiment_def polarity_compound_def strip_empty_iff
      split: pyobj.splits option.splits sum.splits)

theorem adapter_degrades_to_neutral_witness:
  "get_vader_sentiment (Some failing_oracle) (PyStr ''   '') = (0, [])
   \<and> get_vader_sentiment (Some failing_oracle) PyNone = (0, [])
   \<and> fst (get_vader_sentiment (Some failing_oracle) (PyStr ''bad food'')) = 0
   \<and> get_vader_sentiment (Some neutral_oracle) (PyStr ''bad food'')
       = (0, [OracleCall ''bad food''])"
proof -
  have 1: "neutral_input (PyStr ''   '')" "neutral_input PyNone"
    by (simp_all add: neutral_input_def is_space_def)
  have 2: "failing_oracle ''bad food'' = Inl ''lexicon lookup failed''"
    by (simp add: failing_oracle_def)
  have 3: "polarity_compound neutral_oracle ''bad food'' = Inr 0"
    by (simp add: polarity_compound_def neutral_oracle_def)
  have 4: "\<not> list_all is_space ''bad food''" by (simp add: is_space_def)
  show ?thesis
    using adapter_degrades_to_neutral[of "PyStr ''   ''" "Some failing_oracle" failing_oracle
        "''bad food''" "''lexicon lookup failed''" 0]
      adapter_degrades_to_neutral[of PyNone "Some failing_oracle" neutral_oracle
        "''bad food''" "[]" 0]
      1 2 3 4 by simp
qed

section \<open>summarizer.py\<close>

subsection \<open>Data frames\<close>

text \<open>
  A pandas data frame is modelled by its column labels and its rows in index order; a row
  gives the cell of every column.  Column labels are distinct.  A cell is a number, a
  string, the float \<open>NaN\<close>, or the object \<open>None\<close>; the last two are the missing cells
  (\<open>isna\<close>).  A column has a dtype: numeric (\<open>float64\<close>, \<open>int64\<close>), holding numbers and
  \<open>NaN\<close>, or \<open>object\<close>, holding any cell.  Two frames are equal when they have the same
  labels, dtypes and cells, as for \<open>DataFrame.equals\<close>.  The functions of this module
  receive the caller's frame by reference, so each model function returns the caller's
  frame as it is after the call, next to the result.
\<close>

datatype cell = Num real | Str string | NaN | NoneCell

fun isna :: "cell \<Rightarrow> bool" where
  "isna NaN = True"
| "isna NoneCell = True"
| "isna c = False"

datatype dtype = Numeric | Object

type_synonym row = "string \<Rightarrow> cell"

record frame =
  columns :: "string list"
  dtypes :: "string \<Rightarrow> dtype"
  rows :: "row list"

text \<open>
  \<open>pd.to_numeric(column, errors='coerce')\<close>, cell by cell: a number stays, a missing cell
  becomes \<open>NaN\<close>, a string becomes the number it spells or, if it spells none, \<open>NaN\<close>.
  The result is a numeric column.  The library's conversion of a string to a float is
  the parameter \<open>parse\<close>.
\<close>

type_synonym parser = "string \<Rightarrow> real option"

fun to_numeric :: "parser \<Rightarrow> cell \<Rightarrow> cell" where
  "to_numeric parse (Num r) = Num r"
| "to_numeric parse NaN = NaN"
| "to_numeric parse NoneCell = NaN"
| "to_numeric parse (Str s) = (case parse s of Some r \<Rightarrow> Num r | None \<Rightarrow> NaN)"

text \<open>
  \<open>df[col] = pd.to_numeric(df[col], errors='coerce')\<close>: the column is replaced in the frame,
  cells and dtype.
\<close>

definition assign_numeric :: "parser \<Rightarrow> string \<Rightarrow> frame \<Rightarrow> frame" where
  "assign_numeric parse col df =
     df\<lparr>dtypes := (dtypes df)(col := Numeric),
        rows := map (\<lambda>r. r(col := to_numeric parse (r col))) (rows df)\<rparr>"

fun assign_numeric_all :: "parser \<Rightarrow> string list \<Rightarrow> frame \<Rightarrow> frame" where
  "assign_numeric_all parse [] df = df"
| "assign_numeric_all parse (col # cols) df =
     assign_numeric_all parse cols (assign_numeric parse col df)"

subsection \<open>Grouping\<close>

text \<open>
  \<open>groupby(col)\<close> leaves out the rows whose key is missing and presents the groups in the
  order of their keys: numbers before strings, numbers by value, strings by code points.
\<close>

fun str_le :: "string \<Rightarrow> string \<Rightarrow> bool" where
  "str_le [] t = True"
| "str_le (c # cs) [] = False"
| "str_le (c # cs) (d # ds) =
     (if c = d then str_le cs ds else (of_char c :: nat) < of_char d)"

fun key_le :: "cell \<Rightarrow> cell \<Rightarrow> bool" where
  "key_le (Num a) (Num b) = (a \<le> b)"
| "key_le (Num a) (Str t) = True"
| "key_le (Str s) (Num b) = False"
| "key_le (Str s) (Str t) = str_le s t"
| "key_le NaN k = True"
| "key_le NoneCell k = True"
| "key_le k NaN = False"
| "key_le k NoneCell = False"

fun insert_key :: "cell \<Rightarrow> cell list \<Rightarrow> cell list" where
  "insert_key k [] = [k]"
| "insert_key k (x # xs) = (if key_le k x then k # x # xs else x # insert_key k xs)"

fun sort_keys :: "cell list \<Rightarrow> cell list" where
  "sort_keys [] = []"
| "sort_keys (k # ks) = insert_key k (sort_keys ks)"

definition group_keys :: "string \<Rightarrow> row list \<Rightarrow> cell list" where
  "group_keys col rs = sort_keys (remdups (filter (\<lambda>k. \<not> isna k) (map (\<lambda>r. r col) rs)))"

definition group_rows :: "string \<Rightarrow> cell \<Rightarrow> row list \<Rightarrow> row list" where
  "group_rows col k rs = filter (\<lambda>r. r col = k) rs"

text \<open>The numbers among the cells, and \<open>mean()\<close>, which skips the missing cells.\<close>

fun numbers :: "cell list \<Rightarrow> real list" where
  "numbers [] = []"
| "numbers (Num r # cs) = r # numbers cs"
| "numbers (c # cs) = numbers cs"

definition mean_skipna :: "cell list \<Rightarrow> cell" where
  "mean_skipna cs =
     (let vs = numbers cs in
      if vs = [] then NaN else Num (sum_list vs / real (length vs)))"

text \<open>
  \<open>sort_values\<close> is called without \<open>kind\<close>, so pandas sorts with its default algorithm
  (\<open>'quicksort'\<close>), which it documents as not stable.  The algorithm is the parameter of
  the functions that sort: given the direction and the sort key it returns the items
  rearranged.  \<open>sorter_ok\<close> is what every \<open>kind\<close> guarantees: the same items, in the
  order of their keys.  \<open>stable_sorter\<close> is the sorter that also keeps the input order of
  items with equal keys (pandas' \<open>kind='stable'\<close>).
\<close>

type_synonym 'a sorter = "bool \<Rightarrow> ('a \<Rightarrow> real) \<Rightarrow> 'a list \<Rightarrow> 'a list"

definition key_ordered :: "bool \<Rightarrow> ('a \<Rightarrow> real) \<Rightarrow> 'a list \<Rightarrow> bool" where
  "key_ordered ascending key xs =
     sorted_wrt (\<lambda>a b. if ascending then key a \<le> key b else key b \<le> key a) xs"

definition sorter_ok :: "'a sorter \<Rightarrow> bool" where
  "sorter_ok srt =
     (\<forall>ascending key xs.
        mset (srt ascending key xs) = mset xs \<and> key_ordered ascending key (srt ascending key xs))"

definition stable_sorter :: "'a sorter" where
  "stable_sorter ascending key xs =
     (if ascending then sort_key key xs else sort_key (\<lambda>x. - key x) xs)"

text \<open>
  The default algorithm on a group of at most four rows, as NumPy's vectorised \<open>argsort\<close>
  runs it: the keys are loaded into the four lanes of a register, the free lanes filled
  with a key larger than any other, and the lanes are sorted by the compare-exchange
  network (0,1) (2,3); (0,3) (1,2); (0,1) (2,3), which exchanges two lanes only when the
  key of the first is greater than the key of the second.  For a descending sort pandas
  reverses the rows, sorts them in ascending order and reverses the result.  A larger
  group, for which the library uses wider networks, is sorted here as by \<open>stable_sorter\<close>.
\<close>

type_synonym 'a lane = "(real \<times> 'a) option"

fun lane_gt :: "'a lane \<Rightarrow> 'a lane \<Rightarrow> bool" where
  "lane_gt (Some (a, x)) (Some (b, y)) = (b < a)"
| "lane_gt None (Some (b, y)) = True"
| "lane_gt l None = False"

definition exchange :: "nat \<Rightarrow> nat \<Rightarrow> 'a lane list \<Rightarrow> 'a lane list" where
  "exchange i j ls = (if lane_gt (ls ! i) (ls ! j) then ls[i := ls ! j, j := ls ! i] else ls)"

definition network4 :: "'a lane list \<Rightarrow> 'a lane list" where
  "network4 ls =
     exchange 2 3 (exchange 0 1 (exchange 1 2 (exchange 0 3 (exchange 2 3 (exchange 0 1 ls)))))"

definition argsort4 :: "('a \<Rightarrow> real) \<Rightarrow> 'a list \<Rightarrow> 'a list" where
  "argsort4 key xs =
     map snd (List.map_filter id
       (network4 (map (\<lambda>x. Some (key x, x)) xs @ replicate (4 - length xs) None)))"

definition network_sorter :: "'a sorter" where
  "network_sorter ascending key xs =
     (if 4 < length xs then stable_sorter ascending key xs
      else if ascending then argsort4 key xs
      else rev (argsort4 key (rev xs)))"

text \<open>\<open>head(n)\<close> and \<open>tail(n)\<close> for a Python integer \<open>n\<close>.\<close>

definition head :: "int \<Rightarrow> 'a list \<Rightarrow> 'a list" where
  "head n xs = (if 0 \<le> n then take (nat n) xs else take (length xs - nat (- n)) xs)"

definition tail :: "int \<Rightarrow> 'a list \<Rightarrow> 'a list" where
  "tail n xs =
     (if n = 0 then []
      else if 0 < n then drop (length xs - nat n) xs
      else drop (nat (- n)) xs)"

fun num_of :: "cell \<Rightarrow> real" where
  "num_of (Num r) = r"
| "num_of c = 0"

subsection \<open>calculate_overall_sentiment\<close>

text \<open>\<open>dropna()\<close> on the series of group means.\<close>

fun dropna_series :: "(cell \<times> cell) list \<Rightarrow> (cell \<times> real) list" where
  "dropna_series [] = []"
| "dropna_series ((k, Num r) # xs) = (k, r) # dropna_series xs"
| "dropna_series (x # xs) = dropna_series xs"

definition group_mean :: "string \<Rightarrow> string \<Rightarrow> row list \<Rightarrow> cell \<Rightarrow> cell" where
  "group_mean college_col col rs k = mean_skipna (map (\<lambda>r. r col) (group_rows college_col k rs))"

definition calculate_overall_sentiment ::
  "(cell \<times> real) sorter \<Rightarrow> parser \<Rightarrow> frame \<Rightarrow> string \<Rightarrow> string \<Rightarrow>
     (cell \<times> real) list \<times> frame" where
  "calculate_overall_sentiment srt parse df college_col sentiment_col =
     (if college_col \<notin> set (columns df) \<or> sentiment_col \<notin> set (columns df) \<or> rows df = []
      then ([], df)
      else
        let df1 = assign_numeric parse sentiment_col df;
            means = map (\<lambda>k. (k, group_mean college_col sentiment_col (rows df1) k))
                      (group_keys college_col (rows df1))
        in (srt False snd (dropna_series means), df1))"

subsection \<open>calculate_aspect_sentiment_summary\<close>

definition endswith :: "string \<Rightarrow> string \<Rightarrow> bool" where
  "endswith s sfx =
     (length sfx \<le> length s \<and> drop (length s - length sfx) s = sfx)"

text \<open>\<open>col.replace('_sentiment', '')\<close>: every occurrence is removed, from left to right.\<close>

fun remove_sentiment :: "string \<Rightarrow> string" where
  "remove_sentiment [] = []"
| "remove_sentiment (c # cs) =
     (if take 10 (c # cs) = ''_sentiment'' then remove_sentiment (drop 9 cs)
      else c # remove_sentiment cs)"

definition aspect_cols :: "frame \<Rightarrow> string list" where
  "aspect_cols df =
     filter (\<lambda>col. endswith col ''_sentiment'' \<and> col \<noteq> ''compound_sentiment'') (columns df)"

text \<open>
  The result table: its column labels, and one row of cells per entity.  The parameter
  \<open>aspect_cols_prefix\<close> of the source is never read.
\<close>

type_synonym summary = "string list \<times> (cell \<times> cell list) list"

definition calculate_aspect_sentiment_summary ::
  "parser \<Rightarrow> frame \<Rightarrow> string \<Rightarrow> summary \<times> frame" where
  "calculate_aspect_sentiment_summary parse df college_col =
     (if college_col \<notin> set (columns df) \<or> rows df = [] then (([], []), df)
      else if aspect_cols df = [] then (([], []), df)
      else
        let df1 = assign_numeric_all parse (aspect_cols df) df;
            means = map (\<lambda>k. (k, map (\<lambda>col. group_mean college_col col (rows df1) k)
                                     (aspect_cols df)))
                      (group_keys college_col (rows df1));
            kept = filter (\<lambda>(k, cells). \<not> list_all isna cells) means
        in ((map remove_sentiment (aspect_cols df), kept), df1))"

subsection \<open>calculate_sentiment_trends\<close>

text \<open>
  \<open>pd.to_datetime(column, unit='s', errors='coerce')\<close>: the cell as a number of seconds
  since the epoch; missing when the cell is missing, spells no number, or lies outside the
  range of a nanosecond timestamp.  The result is the whole second the instant falls in.
\<close>

definition in_timestamp_range :: "real \<Rightarrow> bool" where
  "in_timestamp_range r =
     (- 9223372036854775807 \<le> r * 1000000000 \<and> r * 1000000000 \<le> 9223372036854775807)"

definition to_datetime :: "parser \<Rightarrow> cell \<Rightarrow> int option" where
  "to_datetime parse c =
     (case to_numeric parse c of
        Num r \<Rightarrow> if in_timestamp_range r then Some \<lfloor>r\<rfloor> else None
      | _ \<Rightarrow> None)"

text \<open>
  The resampling frequency is modelled by the function that gives the index of the period
  an instant falls in, and by the earliest and the latest instant for which \<open>resample\<close>
  can lay out its bins.  The bins run from the day of the earliest instant, moved one
  period back, to the day of the latest instant, moved one period on; when one of the two
  ends is not a nanosecond timestamp, \<open>resample\<close> raises.  \<open>monthly\<close> is the default \<open>'M'\<close>:
  month \<open>12 * year + (month - 1)\<close> of the proleptic Gregorian calendar in UTC, computed
  from the day number, for the instants from 1677-10-01 00:00:00 to 2262-03-30 23:59:59.
\<close>

record freq =
  period :: "int \<Rightarrow> int"
  first_instant :: int
  last_instant :: int

definition civil_month :: "int \<Rightarrow> int" where
  "civil_month day =
     (let z = day + 719468;
          era = z div 146097;
          doe = z - era * 146097;
          yoe = (doe - doe div 1460 + doe div 36524 - doe div 146096) div 365;
          doy = doe - (365 * yoe + yoe div 4 - yoe div 100);
          mp = (5 * doy + 2) div 153;
          m = (if mp < 10 then mp + 3 else mp - 9);
          y = yoe + era * 400 + (if m \<le> 2 then 1 else 0)
      in 12 * y + (m - 1))"

definition month_period :: "int \<Rightarrow> int" where
  "month_period second = civil_month (second div 86400)"

definition monthly :: freq where
  "monthly =
     \<lparr>period = month_period, first_instant = - 9222508800, last_instant = 9222335999\<rparr>"

text \<open>
  The rows that survive \<open>dropna(subset=['datetime', sentiment_col])\<close>: the instant and the
  sentiment cell of each.
\<close>

fun stamped :: "parser \<Rightarrow> string \<Rightarrow> string \<Rightarrow> row list \<Rightarrow> (int \<times> cell) list" where
  "stamped parse time_col sentiment_col [] = []"
| "stamped parse time_col sentiment_col (r # rs) =
     (case to_datetime parse (r time_col) of
        None \<Rightarrow> stamped parse time_col sentiment_col rs
      | Some t \<Rightarrow>
          if isna (r sentiment_col) then stamped parse time_col sentiment_col rs
          else (t, r sentiment_col) # stamped parse time_col sentiment_col rs)"

text \<open>Whether the bins can be laid out, and the surviving rows with their period.\<close>

definition can_bin :: "freq \<Rightarrow> (int \<times> cell) list \<Rightarrow> bool" where
  "can_bin freq dated =
     list_all (\<lambda>y. first_instant freq \<le> fst y \<and> fst y \<le> last_instant freq) dated"

definition binned :: "freq \<Rightarrow> (int \<times> cell) list \<Rightarrow> (int \<times> cell) list" where
  "binned freq dated = map (\<lambda>y. (period freq (fst y), snd y)) dated"

fun is_str :: "cell \<Rightarrow> bool" where
  "is_str (Str s) = True"
| "is_str c = False"

definition bin_cells :: "(int \<times> cell) list \<Rightarrow> int \<Rightarrow> cell list" where
  "bin_cells st p = map snd (filter (\<lambda>x. fst x = p) st)"

text \<open>\<open>agg(['mean', 'count'])\<close> for one period: the mean and the number of values.\<close>

definition agg_bin :: "(int \<times> cell) list \<Rightarrow> int \<Rightarrow> int \<times> cell \<times> nat" where
  "agg_bin st p = (p, mean_skipna (bin_cells st p), length (bin_cells st p))"

fun least :: "int \<Rightarrow> int list \<Rightarrow> int" where
  "least m [] = m"
| "least m (x # xs) = least (min m x) xs"

fun greatest :: "int \<Rightarrow> int list \<Rightarrow> int" where
  "greatest m [] = m"
| "greatest m (x # xs) = greatest (max m x) xs"

text \<open>
  \<open>resample(freq)\<close> makes one bin for every period from the earliest to the latest; the
  last \<open>dropna\<close> removes the bins with no mean.  The sentiment column is not converted
  here: with a string among the values the aggregation raises, as \<open>resample\<close> does when
  it cannot lay out its bins, and the handler returns the empty frame.  The frame of the
  caller is never written: the function works on a copy.
\<close>

definition calculate_sentiment_trends ::
  "parser \<Rightarrow> freq \<Rightarrow> frame \<Rightarrow> string \<Rightarrow> string \<Rightarrow> (int \<times> cell \<times> nat) list \<times> frame" where
  "calculate_sentiment_trends parse freq df time_col sentiment_col =
     (if time_col \<notin> set (columns df) \<or> sentiment_col \<notin> set (columns df) \<or> rows df = []
      then ([], df)
      else
        (case stamped parse time_col sentiment_col (rows df) of
           [] \<Rightarrow> ([], df)
         | x # xs \<Rightarrow>
             if \<not> can_bin freq (x # xs) \<or> list_ex (\<lambda>y. is_str (snd y)) (x # xs)
             then ([], df)
             else
               let st = binned freq (x # xs);
                   p0 = period freq (fst x);
                   periods = [least p0 (map fst st) .. greatest p0 (map fst st)];
                   trends = map (agg_bin st) periods
               in (filter (\<lambda>(p, mean, count). \<not> isna mean) trends, df)))"

subsection \<open>find_top_reviews\<close>

text \<open>\<open>to_dict('records')\<close> for one row: the selected columns with their cells.\<close>

definition to_record :: "string list \<Rightarrow> row \<Rightarrow> (string \<times> cell) list" where
  "to_record cols r = map (\<lambda>c. (c, r c)) cols"

text \<open>The body of the loop over the groups (lines 96-105), on the rows of one group.\<close>

definition top_rows :: "row sorter \<Rightarrow> int \<Rightarrow> string \<Rightarrow> row list \<Rightarrow> row list \<times> row list" where
  "top_rows srt n sentiment_col group_df =
     (let sorted_group = srt False (\<lambda>r. num_of (r sentiment_col)) group_df
      in (head n sorted_group,
          srt True (\<lambda>r. num_of (r sentiment_col)) (tail n sorted_group)))"

type_synonym review = "(string \<times> cell) list"

definition find_top_reviews ::
  "row sorter \<Rightarrow> parser \<Rightarrow> frame \<Rightarrow> int \<Rightarrow> string \<Rightarrow> string \<Rightarrow> string \<Rightarrow> string \<Rightarrow>
     (cell \<times> review list \<times> review list) list \<times> frame" where
  "find_top_reviews srt parse df n college_col sentiment_col text_col permalink_col =
     (if \<not> list_all (\<lambda>col. col \<in> set (columns df))
              [college_col, sentiment_col, text_col, permalink_col] \<or> rows df = []
      then ([], df)
      else
        let df1 = assign_numeric parse sentiment_col df;
            df_valid_sentiment = filter (\<lambda>r. \<not> isna (r sentiment_col)) (rows df1);
            review_cols = [text_col, sentiment_col, permalink_col]
        in (map (\<lambda>name.
                   let top = top_rows srt n sentiment_col
                               (group_rows college_col name df_valid_sentiment)
                   in (name, map (to_record review_cols) (fst top),
                             map (to_record review_cols) (snd top)))
                (group_keys college_col df_valid_sentiment),
            df1))"

subsection \<open>Reference notions for the summarizer\<close>

text \<open>
  The frame with the given columns converted to numeric columns, every other column as it
  was.  A numeric column is one that the conversion leaves as it is: its dtype is numeric
  and its cells are numbers or \<open>NaN\<close>.
\<close>

definition coerce_cols :: "parser \<Rightarrow> string list \<Rightarrow> frame \<Rightarrow> frame" where
  "coerce_cols parse cols df =
     df\<lparr>dtypes := (\<lambda>col. if col \<in> set cols then Numeric else dtypes df col),
        rows := map (\<lambda>r col. if col \<in> set cols then to_numeric parse (r col) else r col)
                   (rows df)\<rparr>"

fun numeric_cell :: "cell \<Rightarrow> bool" where
  "numeric_cell (Num r) = True"
| "numeric_cell NaN = True"
| "numeric_cell c = False"

definition numeric_column :: "frame \<Rightarrow> string \<Rightarrow> bool" where
  "numeric_column df col =
     (dtypes df col = Numeric \<and> list_all (\<lambda>r. numeric_cell (r col)) (rows df))"

text \<open>
  The scores an entity has in a column: the numbers among the cells of the rows of the
  entity, missing cells left out.  The cell of the summary is their mean, missing when
  there are none.
\<close>

definition entity_values :: "parser \<Rightarrow> frame \<Rightarrow> string \<Rightarrow> cell \<Rightarrow> string \<Rightarrow> real list" where
  "entity_values parse df college_col e col =
     numbers (map (\<lambda>r. to_numeric parse (r col)) (filter (\<lambda>r. r college_col = e) (rows df)))"

definition entity_cell :: "parser \<Rightarrow> frame \<Rightarrow> string \<Rightarrow> cell \<Rightarrow> string \<Rightarrow> cell" where
  "entity_cell parse df college_col e col =
     (let vs = entity_values parse df college_col e col in
      if vs = [] then NaN else Num (sum_list vs / real (length vs)))"

text \<open>The documents of an entity that have an overall polarity, in input order.\<close>

definition entity_docs :: "parser \<Rightarrow> frame \<Rightarrow> string \<Rightarrow> string \<Rightarrow> cell \<Rightarrow> row list" where
  "entity_docs parse df college_col sentiment_col k =
     group_rows college_col k
       (filter (\<lambda>r. \<not> isna (r sentiment_col)) (rows (coerce_cols parse [sentiment_col] df)))"

definition review_of :: "string \<Rightarrow> string \<Rightarrow> string \<Rightarrow> row \<Rightarrow> review" where
  "review_of text_col sentiment_col permalink_col =
     to_record [text_col, sentiment_col, permalink_col]"

text \<open>
  \<open>sel\<close> is a selection of the \<open>n\<close> highest (or lowest) items of \<open>g\<close>: it has \<open>n\<close> items, or
  all of them when there are fewer; it is taken from \<open>g\<close>; it is ordered from the extreme
  inwards; and no item left out lies beyond an item selected.
\<close>

definition top_selection :: "bool \<Rightarrow> nat \<Rightarrow> ('a \<Rightarrow> real) \<Rightarrow> 'a list \<Rightarrow> 'a list \<Rightarrow> bool" where
  "top_selection highest n key g sel =
     (length sel = min n (length g) \<and> mset sel \<subseteq># mset g \<and>
      key_ordered (\<not> highest) key sel \<and>
      (\<forall>x \<in># mset g - mset sel. \<forall>y \<in> set sel.
         if highest then key x \<le> key y else key y \<le> key x))"

text \<open>The bucket of a period: the period, the mean of its values and their number.\<close>

definition bucket :: "(int \<times> cell) list \<Rightarrow> int \<Rightarrow> int \<times> cell \<times> nat" where
  "bucket st p =
     (p, Num (sum_list (numbers (bin_cells st p)) / real (length (bin_cells st p))),
      length (bin_cells st p))"

subsection \<open>Sample frames\<close>

definition no_number :: parser where
  "no_number s = None"

definition fees_row :: "string \<Rightarrow> cell \<Rightarrow> row" where
  "fees_row college f =
     (\<lambda>col. NoneCell)(''college_name_approx'' := Str college, ''fees_sentiment'' := f)"

definition df_fees :: frame where
  "df_fees =
     \<lparr>columns = [''college_name_approx'', ''fees_sentiment''],
      dtypes = (\<lambda>col. Object)(''fees_sentiment'' := Numeric),
      rows = [fees_row ''E'' NaN, fees_row ''E'' NaN, fees_row ''E'' (Num 0.4),
              fees_row ''F'' NaN]\<rparr>"

definition review_row :: "string \<Rightarrow> string \<Rightarrow> cell \<Rightarrow> string \<Rightarrow> cell \<Rightarrow> row" where
  "review_row college txt score link time =
     (\<lambda>col. NoneCell)(''college_name_approx'' := Str college, ''text'' := Str txt,
                  ''compound_sentiment'' := score, ''permalink'' := Str link,
                  ''created_utc'' := time)"

definition review_columns :: "string list" where
  "review_columns =
     [''college_name_approx'', ''text'', ''compound_sentiment'', ''permalink'', ''created_utc'']"

text \<open>The dtypes of a frame of reviews whose scores and timestamps are floats.\<close>

definition review_dtypes :: "string \<Rightarrow> dtype" where
  "review_dtypes =
     (\<lambda>col. Object)(''compound_sentiment'' := Numeric, ''created_utc'' := Numeric)"

definition df_two :: frame where
  "df_two =
     \<lparr>columns = review_columns, dtypes = review_dtypes,
      rows = [review_row ''E'' ''good'' (Num 0.8) ''p1'' NaN,
              review_row ''E'' ''bad'' (Num (- 0.6)) ''p2'' NaN]\<rparr>"

definition df_three :: frame where
  "df_three =
     \<lparr>columns = review_columns, dtypes = review_dtypes,
      rows = [review_row ''E'' ''fine'' (Num 0.1) ''p1'' NaN,
              review_row ''E'' ''great'' (Num 0.9) ''p2'' NaN,
              review_row ''E'' ''poor'' (Num (- 0.7)) ''p3'' NaN]\<rparr>"

definition df_tie :: frame where
  "df_tie =
     \<lparr>columns = review_columns, dtypes = review_dtypes,
      rows = [review_row ''E'' ''first'' (Num 0.5) ''p1'' NaN,
              review_row ''E'' ''second'' (Num 0.5) ''p2'' NaN]\<rparr>"

text \<open>Four documents of one entity: the first two share a polarity, and so do the last two.\<close>

definition df_ties :: frame where
  "df_ties =
     \<lparr>columns = review_columns, dtypes = review_dtypes,
      rows = [review_row ''E'' ''a'' (Num 0.1) ''p1'' NaN,
              review_row ''E'' ''b'' (Num 0.1) ''p2'' NaN,
              review_row ''E'' ''c'' (Num 0.7) ''p3'' NaN,
              review_row ''E'' ''d'' (Num 0.7) ''p4'' NaN]\<rparr>"

text \<open>A frame whose score column holds a string, and one whose score column holds \<open>None\<close>.\<close>

definition df_text_score :: frame where
  "df_text_score =
     \<lparr>columns = review_columns, dtypes = review_dtypes(''compound_sentiment'' := Object),
      rows = [review_row ''E'' ''good'' (Str ''n/a'') ''p1'' NaN]\<rparr>"

definition df_none_score :: frame where
  "df_none_score =
     \<lparr>columns = review_columns, dtypes = review_dtypes(''compound_sentiment'' := Object),
      rows = [review_row ''E'' ''good'' (Num 0.5) ''p1'' NaN,
              review_row ''E'' ''bad'' NoneCell ''p2'' NaN]\<rparr>"

text \<open>
  Four documents: 2024-01-01 00:00:00, 2024-01-31 23:59:59, 2024-02-01 00:00:00 and
  2024-04-10 00:00:00 (UTC), and one without a timestamp.
\<close>

definition df_months :: frame where
  "df_months =
     \<lparr>columns = review_columns, dtypes = review_dtypes,
      rows = [review_row ''E'' ''a'' (Num 0.2) ''p1'' (Num 1704067200),
              review_row ''E'' ''b'' (Num 0.6) ''p2'' (Num 1706745599),
              review_row ''F'' ''c'' (Num (- 0.5)) ''p3'' (Num 1706745600),
              review_row ''F'' ''d'' (Num 0.3) ''p4'' (Num 1712707200),
              review_row ''F'' ''e'' (Num 0.9) ''p5'' NaN]\<rparr>"

text \<open>
  Two documents of January 2024 with a polarity, and a document of the first second of
  February whose polarity is the text \<open>n/a\<close>.
\<close>

definition df_text_month :: frame where
  "df_text_month =
     \<lparr>columns = review_columns,
      dtypes = review_dtypes(''compound_sentiment'' := Object),
      rows = [review_row ''E'' ''a'' (Num 0.2) ''p1'' (Num 1704067200),
              review_row ''E'' ''b'' (Num 0.6) ''p2'' (Num 1706745599),
              review_row ''F'' ''c'' (Str ''n/a'') ''p3'' (Num 1706745600)]\<rparr>"

text \<open>One document, of 2262-04-11 23:47:16, the last second of the timestamp range.\<close>

definition df_last_second :: frame where
  "df_last_second =
     \<lparr>columns = review_columns, dtypes = review_dtypes,
      rows = [review_row ''E'' ''a'' (Num 0.2) ''p1'' (Num 9223372036)]\<rparr>"

subsection \<open>Properties of the summarizer\<close>

lemma set_insert_key: "set (insert_key k xs) = insert k (set xs)"
  by (induction xs) auto

lemma set_sort_keys: "set (sort_keys ks) = set ks"
  by (induction ks) (auto simp: set_insert_key)

lemma distinct_insert_key: "distinct (insert_key k xs) \<longleftrightarrow> k \<notin> set xs \<and> distinct xs"
  by (induction xs) (auto simp: set_insert_key)

lemma distinct_sort_keys: "distinct (sort_keys ks) = distinct ks"
  by (induction ks) (auto simp: distinct_insert_key set_sort_keys)

lemma set_group_keys:
  "set (group_keys col rs) = {k. \<not> isna k \<and> (\<exists>r\<in>set rs. r col = k)}"
  by (auto simp: group_keys_def set_sort_keys)

lemma distinct_group_keys: "distinct (group_keys col rs)"
  by (simp add: group_keys_def distinct_sort_keys)

lemma to_numeric_idem: "to_numeric parse (to_numeric parse c) = to_numeric parse c"
  by (cases c) (auto split: option.splits)

lemma coerce_cols_Nil: "coerce_cols parse [] df = df"
  by (simp add: coerce_cols_def)

lemma assign_numeric_coerce:
  "assign_numeric parse col (coerce_cols parse cols df) = coerce_cols parse (col # cols) df"
  by (auto simp: assign_numeric_def coerce_cols_def fun_eq_iff to_numeric_idem)

lemma coerce_cols_cong: "set cols = set cols' \<Longrightarrow> coerce_cols parse cols df = coerce_cols parse cols' df"
  by (simp add: coerce_cols_def)

lemma assign_numeric_all_coerce_aux:
  "assign_numeric_all parse cols (coerce_cols parse done df) = coerce_cols parse (rev cols @ done) df"
  by (induction cols arbitrary: "done") (auto simp: assign_numeric_coerce)

lemma assign_numeric_all_eq: "assign_numeric_all parse cols df = coerce_cols parse cols df"
  using assign_numeric_all_coerce_aux[of parse cols "[]" df]
  by (simp add: coerce_cols_Nil coerce_cols_cong[of "rev cols" cols])

lemma assign_numeric_eq: "assign_numeric parse col df = coerce_cols parse [col] df"
  using assign_numeric_coerce[of parse col "[]" df] by (simp add: coerce_cols_Nil)

lemma map_of_filter_graph:
  "distinct ks \<Longrightarrow>
   map_of (filter P (map (\<lambda>k. (k, f k)) ks)) e =
     (if e \<in> set ks \<and> P (e, f e) then Some (f e) else None)"
  by (induction ks) auto

lemma group_mean_coerced:
  assumes "college_col \<notin> set cols" "col \<in> set cols"
  shows "group_mean college_col col (rows (coerce_cols parse cols df)) e
           = entity_cell parse df college_col e col"
proof -
  have "map (\<lambda>r. r col) (group_rows college_col e (rows (coerce_cols parse cols df)))
        = map (\<lambda>r. to_numeric parse (r col)) (filter (\<lambda>r. r college_col = e) (rows df))"
    using assms by (induction "rows df" arbitrary: df)
      (auto simp: group_rows_def coerce_cols_def filter_map comp_def)
  then show ?thesis
    by (simp add: group_mean_def entity_cell_def entity_values_def mean_skipna_def)
qed

lemma group_keys_coerced:
  assumes "college_col \<notin> set cols"
  shows "group_keys college_col (rows (coerce_cols parse cols df)) = group_keys college_col (rows df)"
  using assms by (simp add: group_keys_def coerce_cols_def comp_def)

lemma numbers_empty_group: "e \<notin> (\<lambda>r. r college_col) ` set (rows df) \<Longrightarrow> entity_cell parse df college_col e col = NaN"
proof -
  assume "e \<notin> (\<lambda>r. r college_col) ` set (rows df)"
  then have "filter (\<lambda>r. r college_col = e) (rows df) = []"
    by (auto simp: filter_empty_conv)
  then show ?thesis by (simp add: entity_cell_def entity_values_def)
qed

lemma entity_cell_isna: "isna (entity_cell parse df college_col e col) \<longleftrightarrow> entity_cell parse df college_col e col = NaN"
  by (simp add: entity_cell_def Let_def)

lemma mset_take_drop: "mset (take n xs) + mset (drop n xs) = mset xs"
  by (metis append_take_drop_id mset_append)

lemma sorter_ok_mset: "sorter_ok srt \<Longrightarrow> mset (srt asc key xs) = mset xs"
  by (simp add: sorter_ok_def)

lemma sorter_ok_length: "sorter_ok srt \<Longrightarrow> length (srt asc key xs) = length xs"
  using sorter_ok_mset[of srt asc key xs] by (metis size_mset)

lemma sorter_ok_set: "sorter_ok srt \<Longrightarrow> set (srt asc key xs) = set xs"
  using sorter_ok_mset[of srt asc key xs] by (metis set_mset_mset)

lemma sorter_ok_ordered: "sorter_ok srt \<Longrightarrow> key_ordered asc key (srt asc key xs)"
  by (simp add: sorter_ok_def)

lemma top_selection_take:
  assumes "key_ordered False key s"
  shows "top_selection True n key s (take n s)"
proof -
  have rest: "mset s - mset (take n s) = mset (drop n s)"
    using mset_take_drop[of n s] by (metis add_diff_cancel_left')
  have "sorted_wrt (\<lambda>a b. key b \<le> key a) (take n s @ drop n s)"
    using assms by (simp add: key_ordered_def)
  then have "\<forall>y\<in>set (take n s). \<forall>x\<in>set (drop n s). key x \<le> key y"
    unfolding sorted_wrt_append by blast
  moreover have "mset (take n s) \<subseteq># mset s"
    using mset_take_drop[of n s] by (metis mset_subset_eq_add_left)
  moreover have "key_ordered False key (take n s)"
    using assms by (simp add: key_ordered_def)
  ultimately show ?thesis
    by (auto simp: top_selection_def rest)
qed

lemma top_selection_drop:
  assumes "key_ordered False key s" "mset t = mset (drop (length s - n) s)" "key_ordered True key t"
  shows "top_selection False n key s t"
proof -
  let ?k = "length s - n"
  have rest: "mset s - mset t = mset (take ?k s)"
    using mset_take_drop[of ?k s] assms(2) by (metis add_diff_cancel_right')
  have "sorted_wrt (\<lambda>a b. key b \<le> key a) (take ?k s @ drop ?k s)"
    using assms(1) by (simp add: key_ordered_def)
  then have "\<forall>x\<in>set (take ?k s). \<forall>y\<in>set (drop ?k s). key y \<le> key x"
    unfolding sorted_wrt_append by blast
  moreover have "set t = set (drop ?k s)" using assms(2) by (metis set_mset_mset)
  moreover have "mset t \<subseteq># mset s"
    using mset_take_drop[of ?k s] assms(2) by (metis mset_subset_eq_add_right)
  moreover have "length t = min n (length s)"
    using assms(2) by (metis size_mset length_drop diff_diff_cancel min.commute min_def diff_is_0_eq nat_le_linear)
  ultimately show ?thesis using assms(3)
    by (auto simp: top_selection_def rest)
qed

lemma top_selection_cong:
  "mset g = mset g' \<Longrightarrow> top_selection h n key g sel = top_selection h n key g' sel"
proof -
  assume e: "mset g = mset g'"
  then have "length g = length g'" by (metis size_mset)
  then show ?thesis by (simp add: top_selection_def e)
qed

lemma top_rows_selection:
  assumes ok: "sorter_ok srt" and n: "0 < n"
  shows "top_selection True (nat n) (\<lambda>r. num_of (r sc)) g (fst (top_rows srt n sc g))"
    and "top_selection False (nat n) (\<lambda>r. num_of (r sc)) g (snd (top_rows srt n sc g))"
proof -
  let ?key = "\<lambda>r :: row. num_of (r sc)"
  let ?s = "srt False ?key g"
  have s: "key_ordered False ?key ?s" "mset ?s = mset g"
    using ok by (simp_all add: sorter_ok_ordered sorter_ok_mset)
  have "top_selection True (nat n) ?key ?s (take (nat n) ?s)"
    using s(1) by (rule top_selection_take)
  then show "top_selection True (nat n) ?key g (fst (top_rows srt n sc g))"
    using n s(2) top_selection_cong[OF s(2)] by (simp add: top_rows_def head_def Let_def)
  have "top_selection False (nat n) ?key ?s (srt True ?key (drop (length ?s - nat n) ?s))"
    using ok s(1) by (intro top_selection_drop) (simp_all add: sorter_ok_ordered sorter_ok_mset)
  then show "top_selection False (nat n) ?key g (snd (top_rows srt n sc g))"
    using n top_selection_cong[OF s(2)] by (simp add: top_rows_def tail_def Let_def)
qed

lemma top_selection_all:
  assumes "top_selection h n key g sel" "length g \<le> n"
  shows "mset sel = mset g"
proof -
  from assms have "size (mset sel) = size (mset g)" "mset sel \<subseteq># mset g"
    by (auto simp: top_selection_def)
  then show ?thesis
    by (metis size_Diff_submset size_eq_0_iff_empty subset_mset.add_diff_inverse diff_self_eq_0 add.right_neutral)
qed

lemma filter_take_prefix: "prefix (filter P (take n xs)) (filter P xs)"
  by (metis append_take_drop_id filter_append prefixI)

lemma stable_sorter_ok: "sorter_ok stable_sorter"
  unfolding sorter_ok_def key_ordered_def stable_sorter_def
proof (intro allI conjI)
  fix ascending :: bool and key :: "'a \<Rightarrow> real" and xs :: "'a list"
  show "mset (if ascending then sort_key key xs else sort_key (\<lambda>x. - key x) xs) = mset xs"
    by simp
  have a: "sorted (map key (sort_key key xs))" by simp
  have d: "sorted (map (\<lambda>x. - key x) (sort_key (\<lambda>x. - key x) xs))" by (rule sorted_sort_key)
  show "sorted_wrt (\<lambda>a b. if ascending then key a \<le> key b else key b \<le> key a)
          (if ascending then sort_key key xs else sort_key (\<lambda>x. - key x) xs)"
    using a d by (auto simp: sorted_wrt_map sorted_map)
qed

lemma stable_positive_ties:
  assumes "0 < n"
  shows "prefix (filter (\<lambda>r. num_of (r sc) = v) (fst (top_rows stable_sorter n sc g)))
                (filter (\<lambda>r. num_of (r sc) = v) g)"
proof -
  let ?key = "\<lambda>r :: row. num_of (r sc)"
  have "filter (\<lambda>r. - ?key r = - v) (sort_key (\<lambda>r. - ?key r) g) = filter (\<lambda>r. - ?key r = - v) g"
    by (rule sort_key_stable)
  then have "filter (\<lambda>r. ?key r = v) (sort_key (\<lambda>r. - ?key r) g) = filter (\<lambda>r. ?key r = v) g"
    by simp
  then show ?thesis
    using assms filter_take_prefix[of "\<lambda>r. ?key r = v" "nat n" "sort_key (\<lambda>r. - ?key r) g"]
    by (simp add: top_rows_def head_def stable_sorter_def Let_def)
qed

lemma map_of_graph:
  "distinct ks \<Longrightarrow> map_of (map (\<lambda>k. (k, f k)) ks) e = (if e \<in> set ks then Some (f e) else None)"
  by (induction ks) auto

lemma find_top_reviews_entries:
  assumes "list_all (\<lambda>col. col \<in> set (columns df)) [cc, sc, tc, pc]" "rows df \<noteq> []"
  shows "fst (find_top_reviews srt parse df n cc sc tc pc) =
           map (\<lambda>k. (k, map (review_of tc sc pc) (fst (top_rows srt n sc (entity_docs parse df cc sc k))),
                        map (review_of tc sc pc) (snd (top_rows srt n sc (entity_docs parse df cc sc k)))))
               (group_keys cc (filter (\<lambda>r. \<not> isna (r sc)) (rows (coerce_cols parse [sc] df))))"
  using assms
  by (simp add: find_top_reviews_def Let_def assign_numeric_eq entity_docs_def review_of_def)

lemma find_top_reviews_guard:
  assumes "\<not> (list_all (\<lambda>col. col \<in> set (columns df)) [cc, sc, tc, pc] \<and> rows df \<noteq> [])"
  shows "fst (find_top_reviews srt parse df n cc sc tc pc) = []"
  using assms by (auto simp: find_top_reviews_def)

lemma entity_key_iff:
  "k \<in> set (group_keys cc (filter (\<lambda>r. \<not> isna (r sc)) (rows (coerce_cols parse [sc] df))))
     \<longleftrightarrow> \<not> isna k \<and> entity_docs parse df cc sc k \<noteq> []"
  by (auto simp: set_group_keys entity_docs_def group_rows_def filter_empty_conv)

lemma entity_docs_numeric:
  "r \<in> set (entity_docs parse df cc sc k) \<Longrightarrow> r sc = Num (num_of (r sc))"
proof -
  assume "r \<in> set (entity_docs parse df cc sc k)"
  then obtain r0 where "r = (\<lambda>col. if col \<in> set [sc] then to_numeric parse (r0 col) else r0 col)"
    "\<not> isna (r sc)"
    by (auto simp: entity_docs_def group_rows_def coerce_cols_def)
  then show ?thesis by (cases "r0 sc") (auto split: option.splits)
qed

lemma least_le: "least m xs \<le> m \<and> (\<forall>x\<in>set xs. least m xs \<le> x)"
proof (induction xs arbitrary: m)
  case Nil
  show ?case by simp
next
  case (Cons a xs)
  have "least (min m a) xs \<le> min m a" "\<forall>x\<in>set xs. least (min m a) xs \<le> x"
    using Cons[of "min m a"] by auto
  then show ?case by auto
qed

lemma greatest_ge: "m \<le> greatest m xs \<and> (\<forall>x\<in>set xs. x \<le> greatest m xs)"
proof (induction xs arbitrary: m)
  case Nil
  show ?case by simp
next
  case (Cons a xs)
  have "max m a \<le> greatest (max m a) xs" "\<forall>x\<in>set xs. x \<le> greatest (max m a) xs"
    using Cons[of "max m a"] by auto
  then show ?case by auto
qed

lemma stamped_not_null: "y \<in> set (stamped parse tc sc rs) \<Longrightarrow> \<not> isna (snd y)"
  by (induction rs) (auto split: option.splits if_splits)

lemma numbers_all_num:
  "\<forall>c\<in>set cs. \<not> isna c \<and> \<not> is_str c \<Longrightarrow> length (numbers cs) = length cs"
proof (induction cs)
  case Nil
  then show ?case by simp
next
  case (Cons c cs)
  then show ?case by (cases c) auto
qed

lemma filter_upto_sorted_list:
  assumes "finite S" "S \<subseteq> {lo..hi}"
  shows "filter (\<lambda>p. p \<in> S) [lo..hi] = sorted_list_of_set S"
proof -
  have "sorted (filter (\<lambda>p. p \<in> S) [lo..hi])" by (simp add: sorted_wrt_filter)
  moreover have "distinct (filter (\<lambda>p. p \<in> S) [lo..hi])" by simp
  moreover have "set (filter (\<lambda>p. p \<in> S) [lo..hi]) = S" using assms(2) by auto
  ultimately show ?thesis
    using assms(1) by (metis sorted_list_of_set.idem_if_sorted_distinct)
qed

lemma coerce_cols_fixed:
  "coerce_cols parse cols df = df \<longleftrightarrow> list_all (numeric_column df) cols"
proof
  assume eq: "coerce_cols parse cols df = df"
  let ?f = "\<lambda>r col. if col \<in> set cols then to_numeric parse (r col) else r col"
  have num: "numeric_cell (to_numeric parse c)" for c
    by (cases c) (auto split: option.splits)
  have "dtypes (coerce_cols parse cols df) = dtypes df"
    using eq by simp
  then have d: "(\<lambda>col. if col \<in> set cols then Numeric else dtypes df col) = dtypes df"
    by (simp add: coerce_cols_def)
  have "rows (coerce_cols parse cols df) = rows df"
    using eq by simp
  then have "map ?f (rows df) = map id (rows df)"
    by (simp add: coerce_cols_def)
  then have r: "\<forall>x\<in>set (rows df). ?f x = id x"
    by (simp only: map_eq_conv)
  have "numeric_column df col" if c: "col \<in> set cols" for col
  proof -
    have "dtypes df col = Numeric"
      using c fun_cong[OF d, of col] by simp
    moreover have "numeric_cell (x col)" if x: "x \<in> set (rows df)" for x
    proof -
      have "?f x = x" using r x by simp
      then have "?f x col = x col" by (rule fun_cong)
      then have "to_numeric parse (x col) = x col" using c by simp
      then show ?thesis using num[of "x col"] by simp
    qed
    ultimately show ?thesis by (simp add: numeric_column_def list_all_iff)
  qed
  then show "list_all (numeric_column df) cols" by (simp add: list_all_iff)
next
  assume a: "list_all (numeric_column df) cols"
  have c: "numeric_cell c \<Longrightarrow> to_numeric parse c = c" for c by (cases c) auto
  have "(\<lambda>col. if col \<in> set cols then to_numeric parse (r col) else r col) = r"
    if "r \<in> set (rows df)" for r
  proof
    fix col
    show "(if col \<in> set cols then to_numeric parse (r col) else r col) = r col"
      using that a by (simp add: list_all_iff numeric_column_def c)
  qed
  then have "map (\<lambda>r col. if col \<in> set cols then to_numeric parse (r col) else r col) (rows df)
             = rows df"
    by (simp add: map_idI)
  moreover have "(\<lambda>col. if col \<in> set cols then Numeric else dtypes df col) = dtypes df"
  proof
    fix col
    show "(if col \<in> set cols then Numeric else dtypes df col) = dtypes df col"
      using a by (simp add: list_all_iff numeric_column_def)
  qed
  ultimately show "coerce_cols parse cols df = df" by (simp add: coerce_cols_def)
qed

lemmas sample_defs = df_fees_def fees_row_def df_two_def df_three_def df_tie_def df_ties_def
  df_text_score_def df_none_score_def df_months_def df_text_month_def df_last_second_def
  review_row_def review_columns_def review_dtypes_def no_number_def

lemma review_row_simps:
  "review_row e t s l tm ''college_name_approx'' = Str e"
  "review_row e t s l tm ''text'' = Str t"
  "review_row e t s l tm ''compound_sentiment'' = s"
  "review_row e t s l tm ''permalink'' = Str l"
  "review_row e t s l tm ''created_utc'' = tm"
  by (simp_all add: review_row_def)

lemma review_row_coerced:
  "(\<lambda>col. if col = ''compound_sentiment''
          then to_numeric parse (review_row e t (Num s) l tm col)
          else review_row e t (Num s) l tm col) = review_row e t (Num s) l tm"
  by (auto simp: fun_eq_iff review_row_simps)

lemma exchange4:
  "exchange 0 1 [w, x, y, z] = (if lane_gt w x then [x, w, y, z] else [w, x, y, z])"
  "exchange 2 3 [w, x, y, z] = (if lane_gt y z then [w, x, z, y] else [w, x, y, z])"
  "exchange 0 3 [w, x, y, z] = (if lane_gt w z then [z, x, y, w] else [w, x, y, z])"
  "exchange 1 2 [w, x, y, z] = (if lane_gt x y then [w, y, x, z] else [w, x, y, z])"
  by (simp_all add: exchange_def numeral_2_eq_2 numeral_3_eq_3)

lemma argsort4_two_pairs:
  assumes "key a = key b" "key c = key d" "key a < key c"
  shows "argsort4 key [d, c, b, a] = [a, b, c, d]"
proof -
  let ?A = "Some (key a, a)" and ?B = "Some (key b, b)"
  let ?C = "Some (key c, c)" and ?D = "Some (key d, d)"
  have gt: "\<not> lane_gt ?D ?C" "\<not> lane_gt ?B ?A" "lane_gt ?D ?A" "lane_gt ?C ?B"
    "\<not> lane_gt ?A ?B" "\<not> lane_gt ?C ?D"
    using assms by simp_all
  have 1: "exchange 0 1 [?D, ?C, ?B, ?A] = [?D, ?C, ?B, ?A]"
    unfolding exchange4 using gt by simp
  have 2: "exchange 2 3 [?D, ?C, ?B, ?A] = [?D, ?C, ?B, ?A]"
    unfolding exchange4 using gt by simp
  have 3: "exchange 0 3 [?D, ?C, ?B, ?A] = [?A, ?C, ?B, ?D]"
    unfolding exchange4 using gt by simp
  have 4: "exchange 1 2 [?A, ?C, ?B, ?D] = [?A, ?B, ?C, ?D]"
    unfolding exchange4 using gt by simp
  have 5: "exchange 0 1 [?A, ?B, ?C, ?D] = [?A, ?B, ?C, ?D]"
    unfolding exchange4 using gt by simp
  have 6: "exchange 2 3 [?A, ?B, ?C, ?D] = [?A, ?B, ?C, ?D]"
    unfolding exchange4 using gt by simp
  have "network4 [?D, ?C, ?B, ?A] = [?A, ?B, ?C, ?D]"
    unfolding network4_def 1 2 3 4 5 6 ..
  then show ?thesis by (simp add: argsort4_def List.map_filter_def)
qed

lemma network_two_pairs:
  assumes "key a = key b" "key c = key d" "key a < key c"
  shows "network_sorter False key [a, b, c, d] = [d, c, b, a]"
    and "head 5 [d, c, b, a] = [d, c, b, a]"
    and "network_sorter True key (tail 5 [d, c, b, a]) = [a, b, c, d]"
  using argsort4_two_pairs[of key a b c d, OF assms] by (simp_all add: network_sorter_def head_def tail_def)

lemma stable_two_pairs:
  assumes "key a = key b" "key c = key d" "key a < key c"
  shows "stable_sorter False key [a, b, c, d] = [c, d, a, b]"
    and "head 5 [c, d, a, b] = [c, d, a, b]"
  using assms by (simp_all add: stable_sorter_def head_def)

lemma exchange4_Suc:
  "exchange 0 (Suc 0) [w, x, y, z] = (if lane_gt w x then [x, w, y, z] else [w, x, y, z])"
  "exchange (Suc (Suc 0)) (Suc (Suc (Suc 0))) [w, x, y, z] = (if lane_gt y z then [w, x, z, y] else [w, x, y, z])"
  "exchange 0 (Suc (Suc (Suc 0))) [w, x, y, z] = (if lane_gt w z then [z, x, y, w] else [w, x, y, z])"
  "exchange (Suc 0) (Suc (Suc 0)) [w, x, y, z] = (if lane_gt x y then [w, y, x, z] else [w, x, y, z])"
  using exchange4[of w x y z] by (simp_all add: numeral_2_eq_2 numeral_3_eq_3)

lemmas net_simps = argsort4_def network4_def exchange4_Suc List.map_filter_def
  numeral_2_eq_2 numeral_3_eq_3

lemma replicate4: "replicate 4 x = [x, x, x, x]"
  by (simp add: numeral_eq_Suc)

lemma argsort4_0: "argsort4 key [] = []"
  by (simp add: net_simps replicate4)

lemma argsort4_1: "argsort4 key [a] = [a]"
  by (simp add: net_simps)

lemma argsort4_2:
  "mset (argsort4 key [a, b]) = mset [a, b] \<and> sorted (map key (argsort4 key [a, b]))"
  by (simp add: net_simps)

lemma argsort4_3:
  "mset (argsort4 key [a, b, c]) = mset [a, b, c] \<and> sorted (map key (argsort4 key [a, b, c]))"
  by (simp add: net_simps)

lemma argsort4_4:
  "mset (argsort4 key [a, b, c, d]) = mset [a, b, c, d] \<and> sorted (map key (argsort4 key [a, b, c, d]))"
  by (simp add: net_simps)

lemma argsort4_ok:
  assumes "length xs \<le> 4"
  shows "mset (argsort4 key xs) = mset xs \<and> sorted (map key (argsort4 key xs))"
proof -
  consider "xs = []" | a where "xs = [a]" | a b where "xs = [a, b]"
    | a b c where "xs = [a, b, c]" | a b c d where "xs = [a, b, c, d]"
    using assms
    by (cases xs; cases "tl xs"; cases "tl (tl xs)"; cases "tl (tl (tl xs))";
        cases "tl (tl (tl (tl xs)))") auto
  then show ?thesis
  proof cases
    case 1
    then show ?thesis by (simp add: argsort4_0)
  next
    case 2
    then show ?thesis by (simp add: argsort4_1)
  next
    case 3
    then show ?thesis using argsort4_2[of key] by simp
  next
    case 4
    then show ?thesis using argsort4_3[of key] by simp
  next
    case 5
    then show ?thesis using argsort4_4[of key] by simp
  qed
qed

lemma network_tied_pair:
  assumes "key a = key b"
  shows "network_sorter False key [a, b] = [a, b]"
  using assms by (simp add: network_sorter_def net_simps)

lemma network_sorter_ok: "sorter_ok network_sorter"
  unfolding sorter_ok_def
proof (intro allI)
  fix ascending :: bool and key :: "'a \<Rightarrow> real" and xs :: "'a list"
  show "mset (network_sorter ascending key xs) = mset xs \<and>
        key_ordered ascending key (network_sorter ascending key xs)"
  proof (cases "4 < length xs")
    case True
    then show ?thesis
      using stable_sorter_ok[unfolded sorter_ok_def, rule_format, of ascending key xs]
      by (simp add: network_sorter_def)
  next
    case False
    then have a: "mset (argsort4 key xs) = mset xs" "sorted (map key (argsort4 key xs))"
      and r: "mset (argsort4 key (rev xs)) = mset xs" "sorted (map key (argsort4 key (rev xs)))"
      using argsort4_ok[of xs key] argsort4_ok[of "rev xs" key] by simp_all
    show ?thesis
    proof (cases ascending)
      case True
      then show ?thesis
        using False a by (simp add: network_sorter_def key_ordered_def sorted_map)
    next
      case desc: False
      have "sorted_wrt (\<lambda>a b. key b \<le> key a) (rev (argsort4 key (rev xs)))"
        using r(2) by (simp add: sorted_map sorted_wrt_rev)
      then show ?thesis
        using False desc r(1) by (simp add: network_sorter_def key_ordered_def)
    qed
  qed
qed

lemmas top_defs = find_top_reviews_def top_rows_def head_def tail_def group_keys_def
  group_rows_def assign_numeric_def to_record_def review_of_def entity_docs_def coerce_cols_def

text \<open>
  C5.  When the frame has the entity column, at least one row and at least one aspect
  column, the row of an entity in the summary holds, for every aspect column, the mean of
  the entity's scores that are present: missing scores count neither in the sum nor in the
  number.  The entity has no row exactly when every one of these cells is missing.
\<close>

theorem aspect_summary_cells:
  assumes "college_col \<in> set (columns df)" "rows df \<noteq> []" "aspect_cols df \<noteq> []"
    and "college_col \<notin> set (aspect_cols df)"
  shows "fst (fst (calculate_aspect_sentiment_summary parse df college_col))
           = map remove_sentiment (aspect_cols df)
       \<and> map_of (snd (fst (calculate_aspect_sentiment_summary parse df college_col))) e =
           (let cells = map (entity_cell parse df college_col e) (aspect_cols df) in
            if isna e \<or> list_all (\<lambda>c. c = NaN) cells then None else Some cells)"
proof -
  let ?cols = "aspect_cols df"
  let ?df1 = "coerce_cols parse ?cols df"
  let ?f = "\<lambda>k. map (\<lambda>col. group_mean college_col col (rows ?df1) k) ?cols"
  let ?P = "\<lambda>(k :: cell, cells). \<not> list_all isna cells"
  have f: "?f k = map (entity_cell parse df college_col k) ?cols" for k
    using assms(4) by (simp add: group_mean_coerced)
  have keys: "group_keys college_col (rows ?df1) = group_keys college_col (rows df)"
    using assms(4) by (rule group_keys_coerced)
  have res: "snd (fst (calculate_aspect_sentiment_summary parse df college_col))
        = filter ?P (map (\<lambda>k. (k, ?f k)) (group_keys college_col (rows df)))"
    and lab: "fst (fst (calculate_aspect_sentiment_summary parse df college_col))
           = map remove_sentiment (aspect_cols df)"
    using assms(1-3) keys
    by (simp_all add: calculate_aspect_sentiment_summary_def Let_def assign_numeric_all_eq)
  have absent: "list_all (\<lambda>c. c = NaN) (map (entity_cell parse df college_col e) ?cols)"
    if "e \<notin> set (group_keys college_col (rows df))" "\<not> isna e"
  proof -
    from that have "e \<notin> (\<lambda>r. r college_col) ` set (rows df)"
      by (auto simp: set_group_keys)
    then show ?thesis by (simp add: list_all_iff numbers_empty_group)
  qed
  have null: "isna e \<Longrightarrow> e \<notin> set (group_keys college_col (rows df))"
    by (simp add: set_group_keys)
  have na: "list_all isna (map (entity_cell parse df college_col e) ?cols)
            = list_all (\<lambda>c. c = NaN) (map (entity_cell parse df college_col e) ?cols)"
    by (simp add: list_all_iff entity_cell_isna)
  show ?thesis
    unfolding res lab map_of_filter_graph[OF distinct_group_keys] f Let_def
    using absent null na by auto
qed

text \<open>An entity with fees scores missing, missing, 0.4 has fees mean 0.4; an entity with no score has no row.\<close>

theorem aspect_summary_cells_witness:
  "map_of (snd (fst (calculate_aspect_sentiment_summary no_number df_fees ''college_name_approx'')))
     (Str ''E'') = Some [Num 0.4]
   \<and> map_of (snd (fst (calculate_aspect_sentiment_summary no_number df_fees ''college_name_approx'')))
       (Str ''F'') = None
   \<and> fst (fst (calculate_aspect_sentiment_summary no_number df_fees ''college_name_approx''))
       = [''fees'']"
proof -
  have ac: "aspect_cols df_fees = [''fees_sentiment'']"
    by (simp add: aspect_cols_def endswith_def sample_defs)
  have h: "''college_name_approx'' \<in> set (columns df_fees)" "rows df_fees \<noteq> []"
    "aspect_cols df_fees \<noteq> []" "''college_name_approx'' \<notin> set (aspect_cols df_fees)"
    unfolding ac by (simp_all add: sample_defs)
  have e: "entity_cell no_number df_fees ''college_name_approx'' (Str ''E'') ''fees_sentiment''
           = Num 0.4"
    by (simp add: entity_cell_def entity_values_def sample_defs)
  have f: "entity_cell no_number df_fees ''college_name_approx'' (Str ''F'') ''fees_sentiment''
           = NaN"
    by (simp add: entity_cell_def entity_values_def sample_defs)
  show ?thesis
    using aspect_summary_cells[OF h, of no_number "Str ''E''"]
      aspect_summary_cells[OF h, of no_number "Str ''F''"]
    by (simp add: ac e f)
qed

text \<open>
  C6 (as amended).  For a sort that returns its input in key order, and a positive \<open>n\<close>,
  the entry of an entity holds the records of a selection of the \<open>n\<close> highest and of the
  \<open>n\<close> lowest of the entity's documents with a polarity, the first from the highest down
  and the second from the lowest up; with at most \<open>n\<close> such documents both lists hold all
  of them.  An entity without such a document has no entry.  With a stable sort the
  documents of equal polarity stand in the positive list in input order.
\<close>

theorem top_reviews_selection:
  assumes "sorter_ok srt" "0 < n"
    and "list_all (\<lambda>col. col \<in> set (columns df)) [cc, sc, tc, pc]" "rows df \<noteq> []"
  shows "let docs = entity_docs parse df cc sc k;
             top = top_rows srt n sc docs;
             key = (\<lambda>r. num_of (r sc))
         in map_of (fst (find_top_reviews srt parse df n cc sc tc pc)) k =
              (if isna k \<or> docs = [] then None
               else Some (map (review_of tc sc pc) (fst top), map (review_of tc sc pc) (snd top)))
          \<and> list_all (\<lambda>r. r sc = Num (key r)) docs
          \<and> top_selection True (nat n) key docs (fst top)
          \<and> top_selection False (nat n) key docs (snd top)
          \<and> (length docs \<le> nat n \<longrightarrow> mset (fst top) = mset docs \<and> mset (snd top) = mset docs)
          \<and> (\<forall>v. prefix (filter (\<lambda>r. key r = v) (fst (top_rows stable_sorter n sc docs)))
                        (filter (\<lambda>r. key r = v) docs))"
proof -
  let ?docs = "entity_docs parse df cc sc k"
  let ?key = "\<lambda>r :: row. num_of (r sc)"
  have 1: "map_of (fst (find_top_reviews srt parse df n cc sc tc pc)) k =
      (if isna k \<or> ?docs = [] then None
       else Some (map (review_of tc sc pc) (fst (top_rows srt n sc ?docs)),
                  map (review_of tc sc pc) (snd (top_rows srt n sc ?docs))))"
    unfolding find_top_reviews_entries[OF assms(3,4)] map_of_graph[OF distinct_group_keys]
      entity_key_iff by auto
  have 2: "list_all (\<lambda>r. r sc = Num (?key r)) ?docs"
    using entity_docs_numeric[of _ parse df cc sc k] by (auto simp: list_all_iff)
  have 3: "top_selection True (nat n) ?key ?docs (fst (top_rows srt n sc ?docs))"
    and 4: "top_selection False (nat n) ?key ?docs (snd (top_rows srt n sc ?docs))"
    using top_rows_selection[OF assms(1,2)] by blast+
  have 5: "length ?docs \<le> nat n \<longrightarrow>
      mset (fst (top_rows srt n sc ?docs)) = mset ?docs \<and> mset (snd (top_rows srt n sc ?docs)) = mset ?docs"
    using 3 4 top_selection_all by blast
  have 6: "\<forall>v. prefix (filter (\<lambda>r. ?key r = v) (fst (top_rows stable_sorter n sc ?docs)))
                        (filter (\<lambda>r. ?key r = v) ?docs)"
    using stable_positive_ties[OF assms(2)] by blast
  show ?thesis unfolding Let_def using 1 2 3 4 5 6 by blast
qed

text \<open>Two documents and \<open>n = 5\<close>: two positive and two negative records.\<close>

theorem top_reviews_selection_witness:
  "map_of (fst (find_top_reviews stable_sorter no_number df_two 5 ''college_name_approx''
             ''compound_sentiment'' ''text'' ''permalink'')) (Str ''E'')
     = Some ([[(''text'', Str ''good''), (''compound_sentiment'', Num 0.8), (''permalink'', Str ''p1'')],
              [(''text'', Str ''bad''), (''compound_sentiment'', Num (- 0.6)), (''permalink'', Str ''p2'')]],
             [[(''text'', Str ''bad''), (''compound_sentiment'', Num (- 0.6)), (''permalink'', Str ''p2'')],
              [(''text'', Str ''good''), (''compound_sentiment'', Num 0.8), (''permalink'', Str ''p1'')]])"
proof -
  have h: "list_all (\<lambda>col. col \<in> set (columns df_two))
             [''college_name_approx'', ''compound_sentiment'', ''text'', ''permalink'']"
    "rows df_two \<noteq> []" "(0::int) < 5"
    by (simp_all add: sample_defs)
  show ?thesis
    using top_reviews_selection[OF stable_sorter_ok h(3) h(1) h(2), of no_number "Str ''E''"]
    by (simp add: Let_def top_defs stable_sorter_def sample_defs)
qed

text \<open>
  C6 as stated fails for the default sort, which returns its input in key order: of four
  documents of an entity, the first two of one polarity and the last two of a higher one,
  the positive list has each pair in the reverse of the input order, where a stable sort
  has it in input order.
\<close>

theorem top_reviews_tie_counterexample:
  "sorter_ok (network_sorter :: row sorter)
   \<and> map (\<lambda>(k, P, N). (map (\<lambda>rv. map_of rv ''text'') P, map (\<lambda>rv. map_of rv ''text'') N))
     (fst (find_top_reviews network_sorter no_number df_ties 5 ''college_name_approx''
             ''compound_sentiment'' ''text'' ''permalink''))
     = [([Some (Str ''d''), Some (Str ''c''), Some (Str ''b''), Some (Str ''a'')],
         [Some (Str ''a''), Some (Str ''b''), Some (Str ''c''), Some (Str ''d'')])]
   \<and> map (\<lambda>(k, P, N). map (\<lambda>rv. map_of rv ''text'') P)
       (fst (find_top_reviews stable_sorter no_number df_ties 5 ''college_name_approx''
               ''compound_sentiment'' ''text'' ''permalink''))
     = [[Some (Str ''c''), Some (Str ''d''), Some (Str ''a''), Some (Str ''b'')]]"
proof -
  let ?a = "review_row ''E'' ''a'' (Num 0.1) ''p1'' NaN"
  let ?b = "review_row ''E'' ''b'' (Num 0.1) ''p2'' NaN"
  let ?c = "review_row ''E'' ''c'' (Num 0.7) ''p3'' NaN"
  let ?d = "review_row ''E'' ''d'' (Num 0.7) ''p4'' NaN"
  let ?key = "\<lambda>r :: row. num_of (r ''compound_sentiment'')"
  have h: "list_all (\<lambda>col. col \<in> set (columns df_ties))
             [''college_name_approx'', ''compound_sentiment'', ''text'', ''permalink'']"
    "rows df_ties \<noteq> []"
    by (simp_all add: df_ties_def review_columns_def)
  have valid: "filter (\<lambda>r. \<not> isna (r ''compound_sentiment''))
                 (rows (coerce_cols no_number [''compound_sentiment''] df_ties)) = [?a, ?b, ?c, ?d]"
    by (simp add: coerce_cols_def df_ties_def review_row_coerced review_row_simps)
  have docs: "entity_docs no_number df_ties ''college_name_approx'' ''compound_sentiment''
                (Str ''E'') = [?a, ?b, ?c, ?d]"
    unfolding entity_docs_def valid by (simp add: group_rows_def review_row_simps)
  have keys: "group_keys ''college_name_approx'' [?a, ?b, ?c, ?d] = [Str ''E'']"
    by (simp add: group_keys_def review_row_simps)
  have k: "?key ?a = ?key ?b" "?key ?c = ?key ?d" "?key ?a < ?key ?c"
    by (simp_all add: review_row_simps)
  have net: "top_rows network_sorter 5 ''compound_sentiment'' [?a, ?b, ?c, ?d]
             = ([?d, ?c, ?b, ?a], [?a, ?b, ?c, ?d])"
    unfolding top_rows_def Let_def network_two_pairs[of ?key ?a ?b ?c ?d, OF k] by simp
  have stab: "fst (top_rows stable_sorter 5 ''compound_sentiment'' [?a, ?b, ?c, ?d])
             = [?c, ?d, ?a, ?b]"
    unfolding top_rows_def Let_def stable_two_pairs[of ?key ?a ?b ?c ?d, OF k] by simp
  show ?thesis
    unfolding find_top_reviews_entries[OF h] valid keys
    by (simp add: network_sorter_ok docs net stab review_of_def to_record_def review_row_simps)
qed

text \<open>Two documents of equal polarity keep their input order under the default sort.\<close>

lemma top_reviews_tied_pair:
  "map (\<lambda>(k, P, N). map (\<lambda>rv. map_of rv ''text'') P)
     (fst (find_top_reviews network_sorter no_number df_tie 5 ''college_name_approx''
             ''compound_sentiment'' ''text'' ''permalink''))
     = [[Some (Str ''first''), Some (Str ''second'')]]"
proof -
  let ?a = "review_row ''E'' ''first'' (Num 0.5) ''p1'' NaN"
  let ?b = "review_row ''E'' ''second'' (Num 0.5) ''p2'' NaN"
  let ?key = "\<lambda>r :: row. num_of (r ''compound_sentiment'')"
  have h: "list_all (\<lambda>col. col \<in> set (columns df_tie))
             [''college_name_approx'', ''compound_sentiment'', ''text'', ''permalink'']"
    "rows df_tie \<noteq> []"
    by (simp_all add: df_tie_def review_columns_def)
  have valid: "filter (\<lambda>r. \<not> isna (r ''compound_sentiment''))
                 (rows (coerce_cols no_number [''compound_sentiment''] df_tie)) = [?a, ?b]"
    by (simp add: coerce_cols_def df_tie_def review_row_coerced review_row_simps)
  have docs: "entity_docs no_number df_tie ''college_name_approx'' ''compound_sentiment''
                (Str ''E'') = [?a, ?b]"
    unfolding entity_docs_def valid by (simp add: group_rows_def review_row_simps)
  have keys: "group_keys ''college_name_approx'' [?a, ?b] = [Str ''E'']"
    by (simp add: group_keys_def review_row_simps)
  have k: "?key ?a = ?key ?b"
    by (simp add: review_row_simps)
  have net: "fst (top_rows network_sorter 5 ''compound_sentiment'' [?a, ?b]) = [?a, ?b]"
    unfolding top_rows_def Let_def network_tied_pair[of ?key ?a ?b, OF k]
    by (simp add: head_def)
  show ?thesis
    unfolding find_top_reviews_entries[OF h] valid keys
    using net by (simp add: docs review_of_def to_record_def review_row_simps)
qed

lemma top_rows_overlap:
  assumes ok: "sorter_ok srt" and n: "0 < n" and g: "g \<noteq> []" and m: "length g < 2 * nat n"
  shows "set (fst (top_rows srt n sc g)) \<inter> set (snd (top_rows srt n sc g)) \<noteq> {}"
proof -
  let ?key = "\<lambda>r :: row. num_of (r sc)"
  let ?s = "srt False ?key g"
  let ?i = "length ?s - nat n"
  have len: "length ?s = length g" using ok by (rule sorter_ok_length)
  have i: "?i < nat n" "?i < length ?s" using n g m len by auto
  then have "?s ! ?i \<in> set (take (nat n) ?s)"
    by (metis in_set_conv_nth length_take min_less_iff_conj nth_take)
  moreover have "?s ! ?i \<in> set (drop ?i ?s)"
    using i(2) by (metis Cons_nth_drop_Suc list.set_intros(1))
  moreover have "set (snd (top_rows srt n sc g)) = set (drop ?i ?s)"
    using ok n by (simp add: top_rows_def tail_def Let_def sorter_ok_set)
  moreover have "fst (top_rows srt n sc g) = take (nat n) ?s"
    using n by (simp add: top_rows_def head_def Let_def)
  ultimately show ?thesis by auto
qed

text \<open>
  C10.  For every entry of the result: the entity has a document with a polarity; with at
  most \<open>n\<close> of them the positive and the negative list hold the records of the whole
  group, so the same records; with fewer than \<open>2 n\<close> the two lists share a record.  The
  positive list is in descending and the negative list in ascending order of polarity.
\<close>

theorem top_lists_overlap:
  assumes "sorter_ok srt" "0 < n"
    and "(k, P, N) \<in> set (fst (find_top_reviews srt parse df n cc sc tc pc))"
  shows "let docs = entity_docs parse df cc sc k in
         docs \<noteq> []
         \<and> (length docs \<le> nat n \<longrightarrow>
              mset P = mset (map (review_of tc sc pc) docs) \<and>
              mset N = mset (map (review_of tc sc pc) docs) \<and> set P = set N)
         \<and> (length docs < 2 * nat n \<longrightarrow> set P \<inter> set N \<noteq> {})
         \<and> (\<exists>pos neg. P = map (review_of tc sc pc) pos \<and> N = map (review_of tc sc pc) neg \<and>
               key_ordered False (\<lambda>r. num_of (r sc)) pos \<and>
               key_ordered True (\<lambda>r. num_of (r sc)) neg)"
proof -
  let ?docs = "entity_docs parse df cc sc k"
  let ?top = "top_rows srt n sc ?docs"
  have guard: "list_all (\<lambda>col. col \<in> set (columns df)) [cc, sc, tc, pc] \<and> rows df \<noteq> []"
    using assms(3) find_top_reviews_guard[of df cc sc tc pc srt parse n] by fastforce
  then have mem: "k \<in> set (group_keys cc (filter (\<lambda>r. \<not> isna (r sc)) (rows (coerce_cols parse [sc] df))))"
    and P: "P = map (review_of tc sc pc) (fst ?top)" and N: "N = map (review_of tc sc pc) (snd ?top)"
    using assms(3) find_top_reviews_entries[of df cc sc tc pc srt parse n] by auto
  from mem have ne: "?docs \<noteq> []" by (simp add: entity_key_iff)
  have sel: "top_selection True (nat n) (\<lambda>r. num_of (r sc)) ?docs (fst ?top)"
    "top_selection False (nat n) (\<lambda>r. num_of (r sc)) ?docs (snd ?top)"
    using top_rows_selection[OF assms(1,2)] by blast+
  have all: "mset P = mset (map (review_of tc sc pc) ?docs) \<and>
      mset N = mset (map (review_of tc sc pc) ?docs) \<and> set P = set N" if "length ?docs \<le> nat n"
  proof -
    have "mset (fst ?top) = mset ?docs" "mset (snd ?top) = mset ?docs"
      using sel that top_selection_all by blast+
    then have "mset P = mset (map (review_of tc sc pc) ?docs)"
      "mset N = mset (map (review_of tc sc pc) ?docs)"
      unfolding P N by (metis mset_map)+
    then show ?thesis by (metis set_mset_mset)
  qed
  have ov: "set P \<inter> set N \<noteq> {}" if "length ?docs < 2 * nat n"
  proof -
    from top_rows_overlap[OF assms(1,2) ne that]
    obtain r where "r \<in> set (fst ?top)" "r \<in> set (snd ?top)" by blast
    then have "review_of tc sc pc r \<in> set P" "review_of tc sc pc r \<in> set N"
      unfolding P N by auto
    then show ?thesis by blast
  qed
  have ord: "\<exists>pos neg. P = map (review_of tc sc pc) pos \<and> N = map (review_of tc sc pc) neg \<and>
               key_ordered False (\<lambda>r. num_of (r sc)) pos \<and>
               key_ordered True (\<lambda>r. num_of (r sc)) neg"
    using P N sel unfolding top_selection_def by auto
  show ?thesis unfolding Let_def using ne all ov ord by blast
qed

text \<open>Three documents and \<open>n = 2\<close>: the middle one is in both lists.\<close>

theorem top_lists_overlap_witness:
  "(let P = [[(''text'', Str ''great''), (''compound_sentiment'', Num 0.9), (''permalink'', Str ''p2'')],
             [(''text'', Str ''fine''), (''compound_sentiment'', Num 0.1), (''permalink'', Str ''p1'')]];
        N = [[(''text'', Str ''poor''), (''compound_sentiment'', Num (- 0.7)), (''permalink'', Str ''p3'')],
             [(''text'', Str ''fine''), (''compound_sentiment'', Num 0.1), (''permalink'', Str ''p1'')]]
    in fst (find_top_reviews stable_sorter no_number df_three 2 ''college_name_approx''
              ''compound_sentiment'' ''text'' ''permalink'') = [(Str ''E'', P, N)]
       \<and> set P \<inter> set N \<noteq> {})"
proof -
  let ?P = "[[(''text'', Str ''great''), (''compound_sentiment'', Num 0.9), (''permalink'', Str ''p2'')],
             [(''text'', Str ''fine''), (''compound_sentiment'', Num 0.1), (''permalink'', Str ''p1'')]]"
  let ?N = "[[(''text'', Str ''poor''), (''compound_sentiment'', Num (- 0.7)), (''permalink'', Str ''p3'')],
             [(''text'', Str ''fine''), (''compound_sentiment'', Num 0.1), (''permalink'', Str ''p1'')]]"
  have r: "fst (find_top_reviews stable_sorter no_number df_three 2 ''college_name_approx''
              ''compound_sentiment'' ''text'' ''permalink'') = [(Str ''E'', ?P, ?N)]"
    by (simp add: Let_def top_defs stable_sorter_def sample_defs)
  then have m: "(Str ''E'', ?P, ?N) \<in> set (fst (find_top_reviews stable_sorter no_number df_three 2
      ''college_name_approx'' ''compound_sentiment'' ''text'' ''permalink''))"
    by simp
  have d: "length (entity_docs no_number df_three ''college_name_approx'' ''compound_sentiment''
             (Str ''E'')) = 3"
    by (simp add: top_defs sample_defs)
  have "set ?P \<inter> set ?N \<noteq> {}"
    using top_lists_overlap[OF stable_sorter_ok _ m] d by (simp add: Let_def)
  then show ?thesis using r by (simp add: Let_def)
qed

text \<open>
  C7.  What \<open>calculate_sentiment_trends\<close> returns.  Past the guard, when the bins can be
  laid out and no document with a timestamp has a text for polarity, the result has one
  bucket for every period in which a document with a timestamp and a polarity falls, in
  the order of the periods, with the mean of the polarities of those documents and their
  number; a period without such a document has no bucket.  Otherwise the result is
  empty, whatever documents the periods hold: there the code departs from the claim.
\<close>

theorem trends_buckets:
  "fst (calculate_sentiment_trends parse freq df tc sc) =
     (let dated = stamped parse tc sc (rows df); st = binned freq dated in
      if tc \<notin> set (columns df) \<or> sc \<notin> set (columns df) \<or> rows df = [] \<or>
         \<not> can_bin freq dated \<or> list_ex (\<lambda>y. is_str (snd y)) dated
      then []
      else map (bucket st) (sorted_list_of_set (fst ` set st)))"
proof (cases "tc \<notin> set (columns df) \<or> sc \<notin> set (columns df) \<or> rows df = []")
  case True
  then show ?thesis by (auto simp: calculate_sentiment_trends_def Let_def)
next
  case guard: False
  let ?dated = "stamped parse tc sc (rows df)"
  let ?st = "binned freq ?dated"
  show ?thesis
  proof (cases ?dated)
    case Nil
    then show ?thesis
      using guard by (simp add: calculate_sentiment_trends_def Let_def binned_def)
  next
    case (Cons x xs)
    show ?thesis
    proof (cases "\<not> can_bin freq ?dated \<or> list_ex (\<lambda>y. is_str (snd y)) ?dated")
      case True
      then show ?thesis using guard Cons by (auto simp: calculate_sentiment_trends_def Let_def)
    next
      case ok: False
      let ?p0 = "period freq (fst x)"
      let ?lo = "least ?p0 (map fst ?st)" and ?hi = "greatest ?p0 (map fst ?st)"
      have snds: "snd ` set ?st = snd ` set ?dated"
        by (force simp: binned_def)
      have cells: "\<forall>c\<in>set (bin_cells ?st p). \<not> isna c \<and> \<not> is_str c" for p
      proof
        fix c assume "c \<in> set (bin_cells ?st p)"
        then have "c \<in> snd ` set ?st" by (auto simp: bin_cells_def)
        then obtain y where y: "y \<in> set ?dated" "c = snd y" unfolding snds by blast
        then show "\<not> isna c \<and> \<not> is_str c"
          using ok stamped_not_null[of y parse tc sc "rows df"] by (auto simp: list_ex_iff)
      qed
      have len: "length (numbers (bin_cells ?st p)) = length (bin_cells ?st p)" for p
        using cells by (rule numbers_all_num)
      have agg: "agg_bin ?st p = (if p \<in> fst ` set ?st then bucket ?st p else (p, NaN, 0))" for p
      proof (cases "p \<in> fst ` set ?st")
        case True
        then have "bin_cells ?st p \<noteq> []" by (auto simp: bin_cells_def filter_empty_conv)
        then have "numbers (bin_cells ?st p) \<noteq> []" using len[of p] by (metis length_0_conv)
        then show ?thesis using True by (simp add: agg_bin_def bucket_def mean_skipna_def len)
      next
        case False
        then have "bin_cells ?st p = []" by (auto simp: bin_cells_def filter_empty_conv)
        then show ?thesis using False by (simp add: agg_bin_def mean_skipna_def)
      qed
      have range: "fst ` set ?st \<subseteq> {?lo..?hi}"
        using least_le[of ?p0 "map fst ?st"] greatest_ge[of ?p0 "map fst ?st"]
        by fastforce
      have "filter (\<lambda>(p, mean, count). \<not> isna mean) (map (agg_bin ?st) [?lo..?hi])
            = map (bucket ?st) (filter (\<lambda>p. p \<in> fst ` set ?st) [?lo..?hi])"
        by (induction "[?lo..?hi]" rule: list.induct)
          (auto simp: agg filter_map comp_def bucket_def intro!: filter_cong map_cong)
      then have "fst (calculate_sentiment_trends parse freq df tc sc)
            = map (bucket ?st) (sorted_list_of_set (fst ` set ?st))"
        using guard ok filter_upto_sorted_list[OF _ range]
        unfolding calculate_sentiment_trends_def Let_def Cons[symmetric]
        by (simp add: Cons)
      then show ?thesis using guard ok by (simp add: Let_def)
    qed
  qed
qed

text \<open>
  The two documents of January 2024 in \<open>df_text_month\<close> have a timestamp and a polarity,
  and the result has no bucket for them, because a document of February has a text for
  polarity.  Line 63 of the source says that a row with an invalid sentiment is dropped,
  and the other three functions convert the column with \<open>pd.to_numeric\<close> first; on the
  frame so converted the result has the bucket of January the claim describes.  In
  \<open>df_months\<close> two documents of January 2024 share a bucket, the document of the first
  second of February starts the next one, March has no bucket, April has one.
\<close>

theorem trends_buckets_witness:
  "fst (calculate_sentiment_trends no_number monthly df_text_month ''created_utc''
          ''compound_sentiment'') = []
   \<and> fst (calculate_sentiment_trends no_number monthly
            (coerce_cols no_number [''compound_sentiment''] df_text_month) ''created_utc''
            ''compound_sentiment'') = [(12 * 2024 + 0, Num 0.4, 2)]
   \<and> fst (calculate_sentiment_trends no_number monthly df_months ''created_utc''
            ''compound_sentiment'')
       = [(12 * 2024 + 0, Num 0.4, 2), (12 * 2024 + 1, Num (- 0.5), 1),
          (12 * 2024 + 3, Num 0.3, 1)]"
proof -
  let ?tc = "''created_utc''" and ?sc = "''compound_sentiment''"
  let ?df2 = "coerce_cols no_number [?sc] df_text_month"
  have m: "month_period 1704067200 = 24288" "month_period 1706745599 = 24288"
    "month_period 1706745600 = 24289" "month_period 1712707200 = 24291"
    by code_simp+
  have g1: "?tc \<in> set (columns df_text_month)" "?sc \<in> set (columns df_text_month)"
    "rows df_text_month \<noteq> []"
    by (simp_all add: sample_defs)
  have d1: "stamped no_number ?tc ?sc (rows df_text_month)
        = [(1704067200, Num 0.2), (1706745599, Num 0.6), (1706745600, Str ''n/a'')]"
    by (simp add: sample_defs to_datetime_def in_timestamp_range_def)
  have 1: "fst (calculate_sentiment_trends no_number monthly df_text_month ?tc ?sc) = []"
    using trends_buckets[of no_number monthly df_text_month ?tc ?sc] g1
    by (simp add: d1 Let_def)
  have g2: "?tc \<in> set (columns ?df2)" "?sc \<in> set (columns ?df2)" "rows ?df2 \<noteq> []"
    by (simp_all add: coerce_cols_def sample_defs)
  have d2: "stamped no_number ?tc ?sc (rows ?df2)
        = [(1704067200, Num 0.2), (1706745599, Num 0.6)]"
    by (simp add: coerce_cols_def sample_defs to_datetime_def in_timestamp_range_def)
  have st2: "binned monthly [(1704067200, Num 0.2), (1706745599, Num 0.6)]
        = [(24288, Num 0.2), (24288, Num 0.6)]"
    by (simp add: binned_def monthly_def m)
  have cb2: "can_bin monthly [(1704067200, Num 0.2), (1706745599, Num 0.6)]"
    by (simp add: can_bin_def monthly_def)
  have 2: "fst (calculate_sentiment_trends no_number monthly ?df2 ?tc ?sc)
        = [(24288, Num 0.4, 2)]"
    using trends_buckets[of no_number monthly ?df2 ?tc ?sc] g2 st2 cb2
    by (simp add: d2 bucket_def bin_cells_def Let_def)
  have g3: "?tc \<in> set (columns df_months)" "?sc \<in> set (columns df_months)"
    "rows df_months \<noteq> []"
    by (simp_all add: sample_defs)
  have d3: "stamped no_number ?tc ?sc (rows df_months)
        = [(1704067200, Num 0.2), (1706745599, Num 0.6), (1706745600, Num (- 0.5)),
           (1712707200, Num 0.3)]"
    by (simp add: sample_defs to_datetime_def in_timestamp_range_def)
  have st3: "binned monthly [(1704067200, Num 0.2), (1706745599, Num 0.6),
              (1706745600, Num (- 0.5)), (1712707200, Num 0.3)]
        = [(24288, Num 0.2), (24288, Num 0.6), (24289, Num (- 0.5)), (24291, Num 0.3)]"
    by (simp add: binned_def monthly_def m)
  have cb3: "can_bin monthly [(1704067200, Num 0.2), (1706745599, Num 0.6),
              (1706745600, Num (- 0.5)), (1712707200, Num 0.3)]"
    by (simp add: can_bin_def monthly_def)
  have s3: "sorted_list_of_set (fst ` set [(24288 :: int, Num 0.2), (24288, Num 0.6),
             (24289, Num (- 0.5)), (24291, Num 0.3)]) = [24288, 24289, 24291]"
  proof -
    have "fst ` set [(24288 :: int, Num 0.2), (24288, Num 0.6), (24289, Num (- 0.5)),
            (24291, Num 0.3)] = set [24288, 24289, 24291]" by simp
    then show ?thesis unfolding sorted_list_of_set_sort_remdups by simp
  qed
  have 3: "fst (calculate_sentiment_trends no_number monthly df_months ?tc ?sc)
        = [(24288, Num 0.4, 2), (24289, Num (- 0.5), 1), (24291, Num 0.3, 1)]"
    using trends_buckets[of no_number monthly df_months ?tc ?sc] g3 st3 cb3 s3
    by (simp add: d3 bucket_def bin_cells_def Let_def)
  show ?thesis using 1 2 3 by simp
qed

text \<open>
  A document of the last second of the timestamp range has a timestamp, and no bucket:
  \<open>resample\<close> cannot lay out the bin of its month.
\<close>

lemma trends_last_second:
  "fst (calculate_sentiment_trends no_number monthly df_last_second ''created_utc''
          ''compound_sentiment'') = []"
  by (simp add: calculate_sentiment_trends_def sample_defs to_datetime_def
      in_timestamp_range_def can_bin_def monthly_def)

text \<open>
  C8 (as amended).  \<open>calculate_sentiment_trends\<close> leaves the caller's frame as it was.
  Each of the other three, once past its guard, replaces the sentiment column (the aspect
  columns, for the aspect summary) by its conversion to a numeric column and changes
  nothing else; the frame is left as it was exactly when those columns are numeric
  already, that is, of a numeric dtype and holding only numbers and \<open>NaN\<close>.
\<close>

theorem summaries_frame_effect:
  "snd (calculate_sentiment_trends parse freq df time_col sc) = df
   \<and> snd (calculate_overall_sentiment srt parse df cc sc) =
       (if cc \<notin> set (columns df) \<or> sc \<notin> set (columns df) \<or> rows df = [] then df
        else coerce_cols parse [sc] df)
   \<and> snd (calculate_aspect_sentiment_summary parse df cc) =
       (if cc \<notin> set (columns df) \<or> rows df = [] then df
        else coerce_cols parse (aspect_cols df) df)
   \<and> snd (find_top_reviews srt' parse df n cc sc tc pc) =
       (if \<not> list_all (\<lambda>col. col \<in> set (columns df)) [cc, sc, tc, pc] \<or> rows df = [] then df
        else coerce_cols parse [sc] df)
   \<and> (coerce_cols parse cols df = df \<longleftrightarrow> list_all (numeric_column df) cols)"
proof -
  have 1: "snd (calculate_sentiment_trends parse freq df time_col sc) = df"
    by (simp add: calculate_sentiment_trends_def Let_def split: list.splits)
  have 2: "snd (calculate_overall_sentiment srt parse df cc sc) =
       (if cc \<notin> set (columns df) \<or> sc \<notin> set (columns df) \<or> rows df = [] then df
        else coerce_cols parse [sc] df)"
    by (simp add: calculate_overall_sentiment_def Let_def assign_numeric_eq)
  have 3: "snd (calculate_aspect_sentiment_summary parse df cc) =
       (if cc \<notin> set (columns df) \<or> rows df = [] then df
        else coerce_cols parse (aspect_cols df) df)"
    by (simp add: calculate_aspect_sentiment_summary_def Let_def assign_numeric_all_eq
        coerce_cols_Nil)
  have 4: "snd (find_top_reviews srt' parse df n cc sc tc pc) =
       (if \<not> list_all (\<lambda>col. col \<in> set (columns df)) [cc, sc, tc, pc] \<or> rows df = [] then df
        else coerce_cols parse [sc] df)"
    by (simp add: find_top_reviews_def Let_def assign_numeric_eq)
  show ?thesis using 1 2 3 4 coerce_cols_fixed by blast
qed

text \<open>Frames whose scores are floats are left as they were.\<close>

theorem summaries_frame_effect_witness:
  "snd (calculate_sentiment_trends no_number monthly df_two ''created_utc''
          ''compound_sentiment'') = df_two
   \<and> snd (calculate_overall_sentiment stable_sorter no_number df_two ''college_name_approx''
            ''compound_sentiment'') = df_two
   \<and> snd (find_top_reviews stable_sorter no_number df_two 5 ''college_name_approx''
            ''compound_sentiment'' ''text'' ''permalink'') = df_two
   \<and> snd (calculate_aspect_sentiment_summary no_number df_fees ''college_name_approx'')
       = df_fees"
proof -
  have n: "list_all (numeric_column df_two) [''compound_sentiment'']"
    by (simp add: numeric_column_def sample_defs)
  have c: "''college_name_approx'' \<in> set (columns df_two)"
    "''compound_sentiment'' \<in> set (columns df_two)" "rows df_two \<noteq> []"
    by (simp_all add: sample_defs)
  have two: "snd (calculate_sentiment_trends no_number monthly df_two ''created_utc''
          ''compound_sentiment'') = df_two
   \<and> snd (calculate_overall_sentiment stable_sorter no_number df_two ''college_name_approx''
            ''compound_sentiment'') = df_two
   \<and> snd (find_top_reviews stable_sorter no_number df_two 5 ''college_name_approx''
            ''compound_sentiment'' ''text'' ''permalink'') = df_two"
    using summaries_frame_effect[of no_number monthly df_two "''created_utc''"
        "''compound_sentiment''" stable_sorter "''college_name_approx''" stable_sorter 5
        "''text''" "''permalink''" "[''compound_sentiment'']"] n c
    by (simp add: sample_defs)
  have ac: "aspect_cols df_fees = [''fees_sentiment'']"
    by (simp add: aspect_cols_def endswith_def sample_defs)
  have nf: "list_all (numeric_column df_fees) (aspect_cols df_fees)"
    unfolding ac by (simp add: numeric_column_def sample_defs)
  have cf: "''college_name_approx'' \<in> set (columns df_fees)" "rows df_fees \<noteq> []"
    by (simp_all add: sample_defs)
  have fees: "snd (calculate_aspect_sentiment_summary no_number df_fees ''college_name_approx'')
       = df_fees"
    using summaries_frame_effect[of no_number monthly df_fees "''created_utc''"
        "''fees_sentiment''" stable_sorter "''college_name_approx''" stable_sorter 5
        "''text''" "''permalink''" "aspect_cols df_fees"] nf cf
    by simp
  show ?thesis using two fees by simp
qed

text \<open>
  C8 as stated fails: with a string in the sentiment column, the frame after
  \<open>calculate_overall_sentiment\<close> is not the frame before.
\<close>

theorem overall_sentiment_overwrites_counterexample:
  "snd (calculate_overall_sentiment stable_sorter no_number df_text_score ''college_name_approx''
          ''compound_sentiment'') \<noteq> df_text_score"
proof
  assume "snd (calculate_overall_sentiment stable_sorter no_number df_text_score
     ''college_name_approx'' ''compound_sentiment'') = df_text_score"
  then have "hd (rows (snd (calculate_overall_sentiment stable_sorter no_number df_text_score
     ''college_name_approx'' ''compound_sentiment''))) ''compound_sentiment''
     = hd (rows df_text_score) ''compound_sentiment''"
    by simp
  then show False
    by (simp add: calculate_overall_sentiment_def Let_def assign_numeric_def sample_defs)
qed

text \<open>
  So it is with \<open>None\<close> in an object column of scores: the column becomes a float column
  and its \<open>None\<close> becomes \<open>NaN\<close>.
\<close>

lemma overall_sentiment_none_to_nan:
  "dtypes df_none_score ''compound_sentiment'' = Object
   \<and> map (\<lambda>r. r ''compound_sentiment'') (rows df_none_score) = [Num 0.5, NoneCell]
   \<and> dtypes (snd (calculate_overall_sentiment stable_sorter no_number df_none_score
        ''college_name_approx'' ''compound_sentiment'')) ''compound_sentiment'' = Numeric
   \<and> map (\<lambda>r. r ''compound_sentiment'')
        (rows (snd (calculate_overall_sentiment stable_sorter no_number df_none_score
           ''college_name_approx'' ''compound_sentiment''))) = [Num 0.5, NaN]"
  by (simp add: calculate_overall_sentiment_def Let_def assign_numeric_def sample_defs)

section \<open>cleaner.py\<close>

subsection \<open>Regular-expression substitution\<close>

text \<open>
  \<open>re.sub(pattern, repl, text)\<close> scans the text from left to right.  At each position it
  tries the pattern; on a match it writes the replacement and goes on after the match, and
  otherwise it copies one character and moves on.  A pattern is modelled by its matcher:
  for the rest of the text at a position it returns the replacement and what remains
  after the match, or \<open>None\<close>.  None of the patterns below matches the empty string, so
  what remains is shorter than what the matcher was given; the test on the lengths says so.
\<close>

type_synonym matcher = "string \<Rightarrow> (string \<times> string) option"

fun re_sub :: "matcher \<Rightarrow> string \<Rightarrow> string" where
  "re_sub m [] = []"
| "re_sub m (c # cs) =
     (case m (c # cs) of
        None \<Rightarrow> c # re_sub m cs
      | Some (repl, rest) \<Rightarrow>
          if length rest \<le> length cs then repl @ re_sub m rest else c # re_sub m cs)"

text \<open>A literal, and the greedy repetitions \<open>\S+\<close>, \<open>\w+\<close> and \<open>[a-z]+\<close> at the head of a text.\<close>

definition literal :: "string \<Rightarrow> string \<Rightarrow> string option" where
  "literal p t = (if take (length p) t = p then Some (drop (length p) t) else None)"

definition plus :: "(char \<Rightarrow> bool) \<Rightarrow> string \<Rightarrow> string option" where
  "plus cls t =
     (case t of
        [] \<Rightarrow> None
      | c # cs \<Rightarrow> if cls c then Some (dropWhile cls cs) else None)"

text \<open>\<open>p | q\<close>: the first alternative that matches.\<close>

definition alt :: "'a option \<Rightarrow> 'a option \<Rightarrow> 'a option" where
  "alt a b = (case a of Some x \<Rightarrow> Some x | None \<Rightarrow> b)"

definition removed :: "string option \<Rightarrow> (string \<times> string) option" where
  "removed r = map_option (\<lambda>rest. ([], rest)) r"

text \<open>\<open>http\S+|www\S+|https\S+\<close>\<close>

definition url_pattern :: matcher where
  "url_pattern t =
     removed
       (alt (Option.bind (literal ''http'' t) (plus (\<lambda>c. \<not> is_space c)))
         (alt (Option.bind (literal ''www'' t) (plus (\<lambda>c. \<not> is_space c)))
              (Option.bind (literal ''https'' t) (plus (\<lambda>c. \<not> is_space c)))))"

text \<open>
  \<open>/?u/\w+|/?r/\w+\<close>.  The optional slash is taken when it is there: without it the
  text would have to begin with \<open>u\<close> or \<open>r\<close>, and it begins with the slash.
\<close>

definition optional_slash :: "string \<Rightarrow> string" where
  "optional_slash t = (case t of c # cs \<Rightarrow> if c = CHR ''/'' then cs else t | [] \<Rightarrow> t)"

definition mention_pattern :: matcher where
  "mention_pattern t =
     removed
       (alt (Option.bind (literal ''u/'' (optional_slash t)) (plus is_word))
            (Option.bind (literal ''r/'' (optional_slash t)) (plus is_word)))"

text \<open>\<open>[*_`~]\<close>\<close>

definition is_markdown :: "char \<Rightarrow> bool" where
  "is_markdown c = (c \<in> set [CHR ''*'', CHR ''_'', CHR 0x60, CHR ''~''])"

text \<open>
  \<open>\[(.*?)\]\(.*?\)\<close> with the replacement \<open>\1\<close>.  The dot matches any character but the
  newline.  \<open>link_close\<close> is \<open>.*?\)\<close>: up to the first closing parenthesis, with no newline
  before it.  \<open>link_text\<close> is \<open>(.*?)\]\(.*?\)\<close>: the lazy group grows one character at a
  time, and before each step the rest of the pattern is tried.
\<close>

definition newline :: char where
  "newline = CHR 0x0A"

definition link_close :: "string \<Rightarrow> string option" where
  "link_close t =
     (case dropWhile (\<lambda>c. c \<noteq> CHR '')'' \<and> c \<noteq> newline) t of
        [] \<Rightarrow> None
      | c # rest \<Rightarrow> if c = CHR '')'' then Some rest else None)"

fun link_text :: "string \<Rightarrow> string \<Rightarrow> (string \<times> string) option" where
  "link_text g [] = None"
| "link_text g (c # cs) =
     (case Option.bind (literal ''](''  (c # cs)) link_close of
        Some rest \<Rightarrow> Some (g, rest)
      | None \<Rightarrow> if c = newline then None else link_text (g @ [c]) cs)"

definition link_pattern :: matcher where
  "link_pattern t = Option.bind (literal ''['' t) (link_text [])"

text \<open>
  \<open>^>.*$\<close> with \<open>re.MULTILINE\<close>: at the start of the text or just after a newline, a
  \<open>></\<close> and everything up to the end of the line; the newline stays.  The flag says
  whether the position is the start of a line.
\<close>

function blockquote_sub :: "bool \<Rightarrow> string \<Rightarrow> string" where
  "blockquote_sub line_start [] = []"
| "blockquote_sub line_start (c # cs) =
     (if line_start \<and> c = CHR ''>'' then blockquote_sub False (dropWhile (\<lambda>x. x \<noteq> newline) cs)
      else c # blockquote_sub (c = newline) cs)"
  by pat_completeness auto
termination
  by (relation "measure (\<lambda>(b, s). length s)")
     (auto simp: le_imp_less_Suc length_dropWhile_le)

text \<open>\<open>&[a-z]+;\<close>\<close>

definition entity_pattern :: matcher where
  "entity_pattern t =
     removed (Option.bind (Option.bind (literal ''&'' t) (plus is_lower_az)) (literal '';''))"

text \<open>\<open>[^a-z\s.,?!\']\<close>: the characters that are kept.\<close>

definition is_basic :: "char \<Rightarrow> bool" where
  "is_basic c =
     (is_lower_az c \<or> is_space c \<or> c \<in> set [CHR ''.'', CHR '','', CHR ''?'', CHR ''!'', CHR 0x27])"

text \<open>\<open>text.split()\<close>: the maximal runs without whitespace; \<open>' '.join\<close> of them.\<close>

fun split_from :: "string \<Rightarrow> string \<Rightarrow> string list" where
  "split_from w [] = (if w = [] then [] else [w])"
| "split_from w (c # cs) =
     (if is_space c then (if w = [] then split_from [] cs else w # split_from [] cs)
      else split_from (w @ [c]) cs)"

definition split :: "string \<Rightarrow> string list" where
  "split s = split_from [] s"

fun join :: "string list \<Rightarrow> string" where
  "join [] = []"
| "join [w] = w"
| "join (w # v # ws) = w @ '' '' @ join (v # ws)"

subsection \<open>clean_text\<close>

definition clean_str :: "string \<Rightarrow> string" where
  "clean_str text0 =
     (let text1 = lower text0;
          text2 = re_sub url_pattern text1;
          text3 = re_sub mention_pattern text2;
          text4 = filter (\<lambda>c. \<not> is_markdown c) text3;
          text5 = re_sub link_pattern text4;
          text6 = blockquote_sub True text5;
          text7 = re_sub entity_pattern text6;
          text8 = filter is_basic text7
      in join (split text8))"

definition clean_text :: "pyobj \<Rightarrow> string" where
  "clean_text text = (case text of PyStr s \<Rightarrow> clean_str s | _ \<Rightarrow> [])"

subsection \<open>Reference notions for the cleaner\<close>

text \<open>
  A text is free of URLs when the URL pattern matches at none of its positions: nowhere
  does \<open>http\<close> or \<open>www\<close> stand directly before a character that is not whitespace.
\<close>

fun url_free :: "string \<Rightarrow> bool" where
  "url_free [] = True"
| "url_free (c # cs) = (url_pattern (c # cs) = None \<and> url_free cs)"

text \<open>
  A cleaned text is a sequence of words separated by single spaces, each word not empty
  and made of lowercase letters and the punctuation that is kept.
\<close>

definition clean_chars :: "string \<Rightarrow> bool" where
  "clean_chars w = (w \<noteq> [] \<and> (\<forall>c\<in>set w. is_basic c \<and> \<not> is_space c))"

definition cleaned :: "string \<Rightarrow> bool" where
  "cleaned t = (\<exists>ws. t = join ws \<and> (\<forall>w\<in>set ws. clean_chars w))"

subsection \<open>Properties of the cleaner\<close>

lemmas pattern_defs = url_pattern_def mention_pattern_def link_pattern_def entity_pattern_def
  literal_def plus_def alt_def removed_def optional_slash_def link_close_def newline_def
  is_markdown_def is_basic_def split_def

lemma split_from_append:
  "\<forall>c\<in>set w. \<not> is_space c \<Longrightarrow> split_from a (w @ s) = split_from (a @ w) s"
  by (induction w arbitrary: a) auto

lemma split_join:
  assumes "\<forall>w\<in>set ws. w \<noteq> [] \<and> (\<forall>c\<in>set w. \<not> is_space c)"
  shows "split (join ws) = ws"
  using assms
proof (induction ws rule: join.induct)
  case 1
  then show ?case by (simp add: split_def)
next
  case (2 w)
  then show ?case using split_from_append[of w "[]" "[]"] by (simp add: split_def)
next
  case (3 w v ws)
  have sp: "is_space (CHR '' '')" by (simp add: is_space_def)
  have "split (join (w # v # ws)) = split_from w ('' '' @ join (v # ws))"
    using 3 split_from_append[of w "[]"] by (simp add: split_def)
  also have "\<dots> = w # split (join (v # ws))"
    using 3 sp by (simp add: split_def)
  finally show ?case using 3 by simp
qed

lemma re_sub_no_match:
  assumes "\<And>u. suffix u t \<Longrightarrow> u \<noteq> [] \<Longrightarrow> m u = None"
  shows "re_sub m t = t"
  using assms
proof (induction t)
  case Nil
  show ?case by simp
next
  case (Cons c cs)
  have "m (c # cs) = None" using Cons.prems[of "c # cs"] by simp
  moreover have "re_sub m cs = cs"
    using Cons.IH Cons.prems by (meson suffix_Cons)
  ultimately show ?case by simp
qed

lemma url_free_suffix: "url_free t \<Longrightarrow> suffix u t \<Longrightarrow> u \<noteq> [] \<Longrightarrow> url_pattern u = None"
  by (induction t) (auto simp: suffix_Cons)

lemma split_from_words:
  "\<forall>c\<in>set a. P c \<and> \<not> is_space c \<Longrightarrow> \<forall>c\<in>set s. P c \<or> is_space c \<Longrightarrow>
   \<forall>w\<in>set (split_from a s). w \<noteq> [] \<and> (\<forall>c\<in>set w. P c \<and> \<not> is_space c)"
proof (induction s arbitrary: a)
  case Nil
  then show ?case by simp
next
  case (Cons c cs)
  have s': "\<forall>x\<in>set cs. P x \<or> is_space x" using Cons.prems(2) by simp
  show ?case
  proof (cases "is_space c")
    case True
    have e: "\<forall>x\<in>set []. P x \<and> \<not> is_space x" by simp
    note ih = Cons.IH[OF e s']
    show ?thesis
    proof (cases "a = []")
      case True
      then have "split_from a (c # cs) = split_from [] cs" using \<open>is_space c\<close> by simp
      then show ?thesis using ih by (simp only:)
    next
      case False
      then have "split_from a (c # cs) = a # split_from [] cs" using \<open>is_space c\<close> by simp
      then show ?thesis using ih False Cons.prems(1) by (simp only: set_simps ball_simps) blast
    qed
  next
    case False
    have "P c" using False Cons.prems(2) by simp
    then have a': "\<forall>x\<in>set (a @ [c]). P x \<and> \<not> is_space x"
      using False Cons.prems(1) by simp
    have "split_from a (c # cs) = split_from (a @ [c]) cs" using False by simp
    then show ?thesis using Cons.IH[OF a' s'] by (simp only:)
  qed
qed

lemma split_clean:
  assumes "\<forall>c\<in>set s. is_basic c"
  shows "\<forall>w\<in>set (split s). clean_chars w"
proof -
  have "\<forall>w\<in>set (split_from [] s). w \<noteq> [] \<and> (\<forall>c\<in>set w. is_basic c \<and> \<not> is_space c)"
    using assms by (intro split_from_words) simp_all
  then show ?thesis by (simp add: split_def clean_chars_def)
qed

lemma join_all: "list_all (list_all P) ws \<Longrightarrow> P (CHR '' '') \<Longrightarrow> list_all P (join ws)"
  by (induction ws rule: join.induct) simp_all

lemma map_of_zip_None: "c \<notin> set xs \<Longrightarrow> map_of (zip xs ys) c = None"
  by (induction xs arbitrary: ys) (auto simp: zip_Cons1 split: list.splits)

lemma lower_char_id: "\<not> is_upper_az c \<Longrightarrow> lower_char c = c"
proof -
  assume "\<not> is_upper_az c"
  then have "map_of (zip ''ABCDEFGHIJKLMNOPQRSTUVWXYZ'' ''abcdefghijklmnopqrstuvwxyz'') c = None"
    unfolding is_upper_az_def by (rule map_of_zip_None)
  then show ?thesis unfolding lower_char_def by (simp only: option.case)
qed

lemma upper_not_basic: "list_all (\<lambda>c. \<not> is_basic c) ''ABCDEFGHIJKLMNOPQRSTUVWXYZ''"
  by (simp add: is_basic_def is_lower_az_def is_space_def)

lemma basic_not_upper: "is_basic c \<Longrightarrow> \<not> is_upper_az c"
  using upper_not_basic unfolding is_upper_az_def list_all_iff by blast

lemma special_not_basic:
  "list_all (\<lambda>c. \<not> is_basic c) [CHR ''/'', CHR ''['', CHR ''&'', CHR ''>'', CHR ''*'', CHR ''_'', CHR 0x60, CHR ''~'']"
  by (simp add: is_basic_def is_lower_az_def is_space_def)

lemma basic_not_special:
  assumes "is_basic c"
  shows "c \<noteq> CHR ''/''" "c \<noteq> CHR ''[''" "c \<noteq> CHR ''&''" "c \<noteq> CHR ''>''" "\<not> is_markdown c"
  using assms special_not_basic unfolding list_all_iff is_markdown_def by (simp_all only: set_simps) blast+

lemma space_basic: "is_basic (CHR '' '')"
  by (simp add: is_basic_def is_space_def)

lemma literal_Some: "literal p t = Some r \<Longrightarrow> t = p @ r"
  unfolding literal_def by (metis append_take_drop_id option.distinct(1) option.inject)

lemma removed_Some: "removed a = Some x \<Longrightarrow> \<exists>r. a = Some r \<and> x = ([], r)"
  unfolding removed_def by (cases a) auto

lemma alt_Some: "alt a b = Some x \<Longrightarrow> a = Some x \<or> b = Some x"
  unfolding alt_def by (cases a) auto

lemma bind_Some: "Option.bind a f = Some x \<Longrightarrow> \<exists>y. a = Some y \<and> f y = Some x"
  by (cases a) auto

lemma optional_slash_set: "set (optional_slash t) \<subseteq> set t"
  unfolding optional_slash_def by (cases t) auto

lemma mention_needs_slash:
  assumes "mention_pattern u = Some x"
  shows "CHR ''/'' \<in> set u"
proof -
  from assms obtain r where
    "alt (Option.bind (literal ''u/'' (optional_slash u)) (plus is_word))
         (Option.bind (literal ''r/'' (optional_slash u)) (plus is_word)) = Some r"
    unfolding mention_pattern_def using removed_Some by blast
  then obtain y where "literal ''u/'' (optional_slash u) = Some y \<or> literal ''r/'' (optional_slash u) = Some y"
    using alt_Some bind_Some by metis
  then have "optional_slash u = ''u/'' @ y \<or> optional_slash u = ''r/'' @ y"
    using literal_Some by blast
  then have "CHR ''/'' \<in> set (optional_slash u)" by auto
  then show ?thesis using optional_slash_set by blast
qed

lemma link_needs_bracket:
  assumes "link_pattern u = Some x"
  shows "CHR ''['' \<in> set u"
proof -
  from assms obtain y where "literal ''['' u = Some y"
    unfolding link_pattern_def using bind_Some by metis
  then have "u = ''['' @ y" by (rule literal_Some)
  then show ?thesis by (metis append_Cons list.set_intros(1))
qed

lemma entity_needs_amp:
  assumes "entity_pattern u = Some x"
  shows "CHR ''&'' \<in> set u"
proof -
  from assms obtain y where "literal ''&'' u = Some y"
    unfolding entity_pattern_def using removed_Some bind_Some by metis
  then have "u = ''&'' @ y" by (rule literal_Some)
  then show ?thesis by (metis append_Cons list.set_intros(1))
qed

lemma re_sub_trigger:
  assumes "\<And>u r. m u = Some r \<Longrightarrow> x \<in> set u" "x \<notin> set t"
  shows "re_sub m t = t"
proof (rule re_sub_no_match)
  fix u assume "suffix u t" "u \<noteq> []"
  then have "x \<notin> set u" using assms(2) set_mono_suffix by blast
  then show "m u = None" using assms(1) by (cases "m u") auto
qed

lemma blockquote_id: "CHR ''>'' \<notin> set t \<Longrightarrow> blockquote_sub b t = t"
proof (induction t arbitrary: b)
  case Nil
  show ?case by simp
next
  case (Cons a t)
  then have "a \<noteq> CHR ''>''" "CHR ''>'' \<notin> set t" by auto
  then show ?case using Cons.IH by simp
qed

lemma url_free_id: "url_free t \<Longrightarrow> re_sub url_pattern t = t"
  by (rule re_sub_no_match) (rule url_free_suffix)

lemma lower_id: "\<forall>c\<in>set t. is_basic c \<Longrightarrow> lower t = t"
  unfolding lower_def by (simp add: map_idI lower_char_id basic_not_upper)

lemma clean_str_cleaned: "cleaned (clean_str s)"
proof -
  define u where "u = filter is_basic (re_sub entity_pattern (blockquote_sub True
     (re_sub link_pattern (filter (\<lambda>c. \<not> is_markdown c) (re_sub mention_pattern
        (re_sub url_pattern (lower s)))))))"
  have "\<forall>c\<in>set u. is_basic c" by (simp add: u_def)
  then have "\<forall>w\<in>set (split u). clean_chars w" by (rule split_clean)
  moreover have "clean_str s = join (split u)" by (simp add: clean_str_def u_def Let_def)
  ultimately show ?thesis unfolding cleaned_def by blast
qed

lemma cleaned_basic:
  assumes "cleaned t"
  shows "\<forall>c\<in>set t. is_basic c"
proof -
  from assms obtain ws where t: "t = join ws" and ws: "\<forall>w\<in>set ws. clean_chars w"
    unfolding cleaned_def by blast
  have "list_all (list_all is_basic) ws"
    using ws by (simp add: list_all_iff clean_chars_def)
  then have "list_all is_basic (join ws)" using space_basic by (rule join_all)
  then show ?thesis by (simp add: t list_all_iff)
qed

lemma cleaned_split_join:
  assumes "cleaned t"
  shows "join (split t) = t"
proof -
  from assms obtain ws where t: "t = join ws" and ws: "\<forall>w\<in>set ws. clean_chars w"
    unfolding cleaned_def by blast
  have "split (join ws) = ws"
    using ws by (intro split_join) (simp add: clean_chars_def)
  then show ?thesis by (simp add: t)
qed

lemma cleaned_fixed:
  assumes c: "cleaned t" and u: "url_free t"
  shows "clean_str t = t"
proof -
  have b: "\<forall>c\<in>set t. is_basic c" using c by (rule cleaned_basic)
  have 1: "lower t = t" using b by (rule lower_id)
  have 2: "re_sub url_pattern t = t" using u by (rule url_free_id)
  have 3: "re_sub mention_pattern t = t"
    using mention_needs_slash b basic_not_special(1) by (intro re_sub_trigger[of _ "CHR ''/''"]) blast+
  have 4: "filter (\<lambda>c. \<not> is_markdown c) t = t"
    using b basic_not_special(5) by (simp add: filter_id_conv)
  have 5: "re_sub link_pattern t = t"
    using link_needs_bracket b basic_not_special(2) by (intro re_sub_trigger[of _ "CHR ''[''"]) blast+
  have 6: "blockquote_sub True t = t"
    using b basic_not_special(4) by (intro blockquote_id) blast
  have 7: "re_sub entity_pattern t = t"
    using entity_needs_amp b basic_not_special(3) by (intro re_sub_trigger[of _ "CHR ''&''"]) blast+
  have 8: "filter is_basic t = t" using b by (simp add: filter_id_conv)
  have 9: "join (split t) = t" using c by (rule cleaned_split_join)
  show ?thesis unfolding clean_str_def Let_def 1 2 3 4 5 6 7 8 9 ..
qed

lemma re_sub_length:
  assumes "\<And>u repl rest. m u = Some (repl, rest) \<Longrightarrow> length repl + length rest \<le> length u"
  shows "length (re_sub m t) \<le> length t"
proof (induction t rule: length_induct)
  case (1 t)
  show ?case
  proof (cases t)
    case Nil
    then show ?thesis by simp
  next
    case (Cons c cs)
    have rec: "length (re_sub m cs) \<le> length cs" using 1 Cons by simp
    show ?thesis
    proof (cases "m (c # cs)")
      case None
      then show ?thesis using Cons rec by simp
    next
      case (Some x)
      obtain repl rest where x: "x = (repl, rest)" by (cases x)
      show ?thesis
      proof (cases "length rest \<le> length cs")
        case True
        then have "length (re_sub m rest) \<le> length rest" using 1 Cons by simp
        moreover have "length repl + length rest \<le> length (c # cs)"
          using assms Some x by blast
        ultimately show ?thesis using Cons Some x True by simp
      next
        case False
        then show ?thesis using Cons Some x rec by simp
      qed
    qed
  qed
qed

lemma plus_shorter: "plus cls t = Some r \<Longrightarrow> length r < length t"
  unfolding plus_def
  by (cases t) (auto split: if_splits intro: le_imp_less_Suc length_dropWhile_le)

lemma literal_length: "literal p t = Some r \<Longrightarrow> length t = length p + length r"
  using literal_Some by fastforce

lemma literal_plus_shorter:
  assumes "Option.bind (literal p u) (plus cls) = Some r"
  shows "length r < length u"
proof -
  from assms obtain y where "literal p u = Some y" "plus cls y = Some r"
    using bind_Some by metis
  then show ?thesis using plus_shorter literal_length by fastforce
qed

lemma url_shorter:
  assumes "url_pattern u = Some (repl, rest)"
  shows "repl = [] \<and> length rest < length u"
proof -
  define A where "A = Option.bind (literal ''http'' u) (plus (\<lambda>c. \<not> is_space c))"
  define B where "B = Option.bind (literal ''www'' u) (plus (\<lambda>c. \<not> is_space c))"
  define C where "C = Option.bind (literal ''https'' u) (plus (\<lambda>c. \<not> is_space c))"
  have m: "removed (alt A (alt B C)) = Some (repl, rest)"
    using assms unfolding url_pattern_def A_def B_def C_def .
  show ?thesis
  proof (cases "alt A (alt B C)")
    case None
    then show ?thesis using m by (simp add: removed_def)
  next
    case (Some r)
    then have r: "repl = []" "rest = r" using m by (simp_all add: removed_def)
    from Some have "A = Some r \<or> alt B C = Some r" by (rule alt_Some)
    then consider "A = Some r" | "B = Some r" | "C = Some r"
      using alt_Some[of B C r] by blast
    then have "length r < length u"
    proof cases
      case 1
      then show ?thesis unfolding A_def by (rule literal_plus_shorter)
    next
      case 2
      then show ?thesis unfolding B_def by (rule literal_plus_shorter)
    next
      case 3
      then show ?thesis unfolding C_def by (rule literal_plus_shorter)
    qed
    then show ?thesis using r by simp
  qed
qed

lemma mention_shorter:
  assumes "mention_pattern u = Some (repl, rest)"
  shows "length repl + length rest \<le> length u"
proof -
  from assms obtain r where r: "repl = []" "rest = r" and
    a: "alt (Option.bind (literal ''u/'' (optional_slash u)) (plus is_word))
            (Option.bind (literal ''r/'' (optional_slash u)) (plus is_word)) = Some r"
    unfolding mention_pattern_def using removed_Some by fastforce
  from a obtain p where "Option.bind (literal p (optional_slash u)) (plus is_word) = Some r"
    using alt_Some by metis
  then obtain y where "literal p (optional_slash u) = Some y" "plus is_word y = Some r"
    using bind_Some by metis
  then have "length r < length (optional_slash u)"
    using plus_shorter literal_length by fastforce
  moreover have "length (optional_slash u) \<le> length u"
    unfolding optional_slash_def by (cases u) auto
  ultimately show ?thesis using r by simp
qed

lemma entity_shorter:
  assumes "entity_pattern u = Some (repl, rest)"
  shows "length repl + length rest \<le> length u"
proof -
  from assms obtain r where r: "repl = []" "rest = r" and
    a: "Option.bind (Option.bind (literal ''&'' u) (plus is_lower_az)) (literal '';'') = Some r"
    unfolding entity_pattern_def using removed_Some by fastforce
  from a obtain y where y: "Option.bind (literal ''&'' u) (plus is_lower_az) = Some y"
    "literal '';'' y = Some r" using bind_Some by metis
  from y(1) obtain z where z: "literal ''&'' u = Some z" "plus is_lower_az z = Some y"
    using bind_Some by metis
  have "length r \<le> length y" using y(2) literal_length by fastforce
  moreover have "length y < length z" using z(2) by (rule plus_shorter)
  moreover have "length z \<le> length u" using z(1) literal_length by fastforce
  ultimately show ?thesis using r by simp
qed

lemma link_close_length: "link_close t = Some r \<Longrightarrow> length r \<le> length t"
proof -
  assume a: "link_close t = Some r"
  let ?d = "dropWhile (\<lambda>c. c \<noteq> CHR '')'' \<and> c \<noteq> newline) t"
  from a obtain c where "?d = c # r"
    unfolding link_close_def by (cases ?d) (auto split: if_splits)
  then have "length r < length ?d" by simp
  moreover have "length ?d \<le> length t" by (rule length_dropWhile_le)
  ultimately show ?thesis by simp
qed

lemma link_text_length:
  "link_text g t = Some (g', rest) \<Longrightarrow> length g' + length rest \<le> length g + length t"
proof (induction t arbitrary: g)
  case Nil
  then show ?case by simp
next
  case (Cons c cs)
  show ?case
  proof (cases "Option.bind (literal '']('' (c # cs)) link_close")
    case None
    then have "c \<noteq> newline" "link_text (g @ [c]) cs = Some (g', rest)"
      using Cons.prems by (auto split: if_splits)
    then show ?thesis using Cons.IH[of "g @ [c]"] by simp
  next
    case (Some r)
    then have g: "g' = g" "rest = r" using Cons.prems by simp_all
    from Some obtain y where "literal '']('' (c # cs) = Some y" "link_close y = Some r"
      using bind_Some by metis
    then have "length r \<le> length (c # cs)"
      using literal_length link_close_length by fastforce
    then show ?thesis using g by simp
  qed
qed

lemma link_shorter:
  assumes "link_pattern u = Some (repl, rest)"
  shows "length repl + length rest \<le> length u"
proof -
  from assms obtain y where "literal ''['' u = Some y" "link_text [] y = Some (repl, rest)"
    unfolding link_pattern_def using bind_Some by metis
  then show ?thesis using link_text_length literal_length by fastforce
qed

lemma blockquote_length: "length (blockquote_sub b t) \<le> length t"
proof (induction b t rule: blockquote_sub.induct)
  case (1 line_start)
  show ?case by simp
next
  case (2 line_start c cs)
  show ?case
  proof (cases "line_start \<and> c = CHR ''>''")
    case True
    then have "length (blockquote_sub line_start (c # cs))
        \<le> length (dropWhile (\<lambda>x. x \<noteq> newline) cs)"
      using "2.IH"(1) by simp
    also have "\<dots> \<le> length cs" by (rule length_dropWhile_le)
    finally show ?thesis by simp
  next
    case False
    then show ?thesis using "2.IH"(2) by auto
  qed
qed

lemma join_Cons_length: "length (join (w # ws)) \<le> length w + 1 + length (join ws)"
  by (cases ws) simp_all

lemma join_split_from_length: "length (join (split_from a s)) \<le> length a + length s"
proof (induction s arbitrary: a)
  case Nil
  show ?case by simp
next
  case (Cons c cs)
  show ?case
  proof (cases "is_space c")
    case False
    then show ?thesis using Cons[of "a @ [c]"] by simp
  next
    case True
    show ?thesis
    proof (cases "a = []")
      case True
      then show ?thesis using \<open>is_space c\<close> Cons[of "[]"] by simp
    next
      case False
      have "length (join (a # split_from [] cs)) \<le> length a + 1 + length (join (split_from [] cs))"
        by (rule join_Cons_length)
      also have "\<dots> \<le> length a + 1 + length cs" using Cons[of "[]"] by simp
      finally show ?thesis using False \<open>is_space c\<close> by simp
    qed
  qed
qed

lemma url_sub_shorter: "\<not> url_free t \<Longrightarrow> length (re_sub url_pattern t) < length t"
proof (induction t)
  case Nil
  then show ?case by simp
next
  case (Cons c cs)
  show ?case
  proof (cases "url_pattern (c # cs)")
    case None
    then have "\<not> url_free cs" using Cons.prems by simp
    then show ?thesis using Cons.IH None by simp
  next
    case (Some x)
    obtain repl rest where x: "x = (repl, rest)" by (cases x)
    have s: "repl = []" "length rest < length (c # cs)"
      using url_shorter Some x by blast+
    have "length (re_sub url_pattern rest) \<le> length rest"
      using url_shorter by (intro re_sub_length) fastforce
    then show ?thesis using Some x s by simp
  qed
qed

lemma clean_str_length: "length (clean_str t) \<le> length (re_sub url_pattern (lower t))"
proof -
  let ?t2 = "re_sub url_pattern (lower t)"
  let ?t3 = "re_sub mention_pattern ?t2"
  let ?t4 = "filter (\<lambda>c. \<not> is_markdown c) ?t3"
  let ?t5 = "re_sub link_pattern ?t4"
  let ?t6 = "blockquote_sub True ?t5"
  let ?t7 = "re_sub entity_pattern ?t6"
  let ?t8 = "filter is_basic ?t7"
  have "length (clean_str t) \<le> length ?t8"
    using join_split_from_length[of "[]" ?t8] by (simp add: clean_str_def Let_def split_def)
  also have "\<dots> \<le> length ?t7" by simp
  also have "\<dots> \<le> length ?t6" using entity_shorter by (rule re_sub_length)
  also have "\<dots> \<le> length ?t5" by (rule blockquote_length)
  also have "\<dots> \<le> length ?t4" using link_shorter by (rule re_sub_length)
  also have "\<dots> \<le> length ?t3" by simp
  also have "\<dots> \<le> length ?t2" using mention_shorter by (rule re_sub_length)
  finally show ?thesis .
qed

lemma cleaned_url_changes:
  assumes "cleaned t" "\<not> url_free t"
  shows "clean_str t \<noteq> t"
proof -
  have "lower t = t" using assms(1) cleaned_basic lower_id by blast
  then have "length (clean_str t) \<le> length (re_sub url_pattern t)"
    using clean_str_length[of t] by simp
  also have "\<dots> < length t" using assms(2) by (rule url_sub_shorter)
  finally show ?thesis by auto
qed

text \<open>
  C9 (as amended).  Cleaning a cleaned text gives the same text exactly when the cleaned
  text is free of URLs: the second pass changes nothing but a URL that the first pass
  put together.
\<close>

theorem clean_text_idempotent_iff:
  "clean_text (PyStr (clean_text (PyStr s))) = clean_text (PyStr s)
     \<longleftrightarrow> url_free (clean_text (PyStr s))"
  using cleaned_fixed[OF clean_str_cleaned, of s] cleaned_url_changes[OF clean_str_cleaned, of s]
  by (auto simp: clean_text_def)

text \<open>A text with capitals, a link, an entity and digits: its cleaned form is free of URLs and is a fixed point.\<close>

theorem clean_text_idempotent_iff_witness:
  "clean_text (PyStr (clean_text (PyStr ''Cost is HIGH!!  [see](x) &amp; 123'')))
     = clean_text (PyStr ''Cost is HIGH!!  [see](x) &amp; 123'')
   \<and> clean_text (PyStr ''Cost is HIGH!!  [see](x) &amp; 123'') = ''cost is high!! see''"
proof -
  have 1: "clean_text (PyStr ''Cost is HIGH!!  [see](x) &amp; 123'') = ''cost is high!! see''"
    by (simp add: clean_text_def clean_str_def pattern_defs char_class_defs)
  have 2: "url_free ''cost is high!! see''"
    by (simp add: pattern_defs char_class_defs)
  show ?thesis
    using clean_text_idempotent_iff[of "''Cost is HIGH!!  [see](x) &amp; 123''"] 2
    unfolding 1 by simp
qed

text \<open>
  C9 as stated fails: removing the asterisk of \<open>ht*tpx\<close> leaves \<open>httpx\<close>, which the URL
  pattern of the second pass removes.
\<close>

theorem clean_text_not_idempotent_counterexample:
  "clean_text (PyStr (clean_text (PyStr ''ht*tpx''))) \<noteq> clean_text (PyStr ''ht*tpx'')"
proof -
  have 1: "clean_text (PyStr ''ht*tpx'') = ''httpx''"
    by (simp add: clean_text_def clean_str_def pattern_defs char_class_defs)
  have 2: "clean_text (PyStr ''httpx'') = []"
    by (simp add: clean_text_def clean_str_def pattern_defs char_class_defs)
  show ?thesis unfolding 1 2 by simp
qed

end
